theory Spec2Isabelle
  imports Main
begin

section \<open>Instants, durations and wall-clock times\<close>

text \<open>
  The services work on Python's naive \<open>datetime\<close> values. A naive datetime is a point of
  a time line without time zone or daylight saving, so it is modelled by the number of
  microseconds since 1970-01-01 00:00:00 (an \<open>int\<close>): comparison and equality of
  datetimes are comparison and equality of these numbers. Python's datetimes range
  from 0001-01-01 00:00:00 to 9999-12-31 23:59:59.999999. Adding a \<open>timedelta\<close> adds its
  length in microseconds and raises OverflowError when the sum leaves that range;
  building a \<open>timedelta\<close> raises OverflowError when it spans more than 999999999 days.
\<close>

datatype error = MultipleResultsFound | IntegrityError | OverflowError

type_synonym datetime = int

definition timedelta_minutes :: "int \<Rightarrow> int" where
  \<comment> \<open>the length of \<open>timedelta(minutes=k)\<close> in microseconds\<close>
  "timedelta_minutes k = k * 60000000"

definition timedelta_days :: "int \<Rightarrow> int" where
  \<comment> \<open>the length of \<open>timedelta(days=k)\<close> in microseconds\<close>
  "timedelta_days k = k * 86400000000"

definition instant :: "int \<Rightarrow> int \<Rightarrow> int \<Rightarrow> int \<Rightarrow> datetime" where
  \<comment> \<open>the datetime of day \<open>d\<close> (days since 1970-01-01) at \<open>h:m:s\<close>, microsecond 0\<close>
  "instant d h m s = d * 86400000000 + ((h * 60 + m) * 60 + s) * 1000000"

definition datetime_min :: datetime where
  \<comment> \<open>\<open>datetime.min\<close>, 0001-01-01 00:00:00: day -719162\<close>
  "datetime_min = - 62135596800000000"

definition datetime_max :: datetime where
  \<comment> \<open>\<open>datetime.max\<close>, 9999-12-31 23:59:59.999999: the last microsecond of day 2932896\<close>
  "datetime_max = 253402300799999999"

definition valid_datetime :: "datetime \<Rightarrow> bool" where
  "valid_datetime dt \<longleftrightarrow> datetime_min \<le> dt \<and> dt \<le> datetime_max"

definition timedelta_ok :: "int \<Rightarrow> bool" where
  \<comment> \<open>the whole days of a \<open>timedelta\<close> must have magnitude at most 999999999\<close>
  "timedelta_ok days \<longleftrightarrow> - 999999999 \<le> days \<and> days \<le> 999999999"

definition add_minutes :: "datetime \<Rightarrow> int \<Rightarrow> error + datetime" where
  \<comment> \<open>\<open>dt + timedelta(minutes=k)\<close>; the timedelta has \<open>k div 1440\<close> whole days\<close>
  "add_minutes dt k =
     (if timedelta_ok (k div 1440) \<and> valid_datetime (dt + timedelta_minutes k)
      then Inr (dt + timedelta_minutes k) else Inl OverflowError)"

definition add_days :: "datetime \<Rightarrow> int \<Rightarrow> error + datetime" where
  \<comment> \<open>\<open>dt + timedelta(days=k)\<close>\<close>
  "add_days dt k =
     (if timedelta_ok k \<and> valid_datetime (dt + timedelta_days k)
      then Inr (dt + timedelta_days k) else Inl OverflowError)"

text \<open>A \<open>datetime.time\<close>, the type of the columns \<open>work_start\<close> and \<open>work_end\<close>.\<close>

record time =
  hour :: nat
  minute :: nat
  second :: nat
  microsecond :: nat

definition valid_time :: "time \<Rightarrow> bool" where
  \<comment> \<open>the ranges Python's \<open>time\<close> constructor enforces\<close>
  "valid_time t \<longleftrightarrow> hour t < 24 \<and> minute t < 60 \<and> second t < 60 \<and> microsecond t < 1000000"

definition time_le :: "time \<Rightarrow> time \<Rightarrow> bool" where
  \<comment> \<open>\<open>t1 <= t2\<close> on \<open>datetime.time\<close>: lexicographic on the four fields\<close>
  "time_le t1 t2 \<longleftrightarrow>
     hour t1 < hour t2 \<or> (hour t1 = hour t2 \<and>
       (minute t1 < minute t2 \<or> (minute t1 = minute t2 \<and>
         (second t1 < second t2 \<or> (second t1 = second t2 \<and>
           microsecond t1 \<le> microsecond t2)))))"

definition replace_hour_minute :: "datetime \<Rightarrow> nat \<Rightarrow> nat \<Rightarrow> datetime" where
  \<comment> \<open>\<open>dt.replace(hour=h, minute=m, second=0, microsecond=0)\<close>: the day is kept\<close>
  "replace_hour_minute dt h m =
     (dt div 86400000000) * 86400000000 + timedelta_minutes (int h * 60 + int m)"

definition replace_second :: "datetime \<Rightarrow> datetime" where
  \<comment> \<open>\<open>dt.replace(second=0, microsecond=0)\<close>: truncation to the whole minute\<close>
  "replace_second dt = (dt div 60000000) * 60000000"

section \<open>The data model (app/models.py)\<close>

datatype AppointmentStatus = SCHEDULED | CONFIRMED | COMPLETED | CANCELLED | NO_SHOW

record Barber =
  id_barber :: int
  name_barber :: string
  work_start :: time
  work_end :: time
  is_active_barber :: bool

record Service =
  id_service :: int
  name_service :: string
  duration_minutes :: int
  is_active_service :: bool

record Customer =
  id_customer :: int
  phone :: string

record Appointment =
  id_appointment :: int
  customer_id :: int
  barber_id :: int
  service_id :: int
  scheduled_at :: datetime
  status :: AppointmentStatus
  notes_appointment :: "string option"

text \<open>
  The database session \<open>self.db\<close>: the rows of the four tables the services read and
  write. The database is SQLite (app/config.py: \<open>sqlite+aiosqlite\<close>), and the queries
  are modelled with SQLite's semantics. \<open>foreign_keys\<close> tells whether the database
  enforces the foreign keys that models.py declares on \<open>appointments\<close>; SQLite does so
  only when the connection is set up for it, which is the business of the module
  app.database, not among the sources, so it is a parameter here.
\<close>

record db =
  barbers :: "Barber list"
  services :: "Service list"
  customers :: "Customer list"
  appointments :: "Appointment list"
  foreign_keys :: bool

definition int64 :: "int \<Rightarrow> bool" where
  \<comment> \<open>the values of an SQLite INTEGER: signed, 64 bits\<close>
  "int64 i \<longleftrightarrow> - 9223372036854775808 \<le> i \<and> i \<le> 9223372036854775807"

definition bind_int :: "int \<Rightarrow> error + int" where
  \<comment> \<open>binding a Python \<open>int\<close> to a parameter of a statement: the driver raises
      OverflowError for a value that is no SQLite INTEGER\<close>
  "bind_int i = (if int64 i then Inr i else Inl OverflowError)"

definition wf_db :: "db \<Rightarrow> bool" where
  \<comment> \<open>what every stored row satisfies: integer columns hold SQLite INTEGERs, the
      \<open>DateTime\<close> column holds datetimes and the \<open>Time\<close> columns hold times\<close>
  "wf_db st \<longleftrightarrow>
     list_all (\<lambda>b. int64 (id_barber b) \<and> valid_time (work_start b) \<and> valid_time (work_end b))
       (barbers st) \<and>
     list_all (\<lambda>s. int64 (id_service s) \<and> int64 (duration_minutes s)) (services st) \<and>
     list_all (\<lambda>c. int64 (id_customer c)) (customers st) \<and>
     list_all (\<lambda>a. int64 (id_appointment a) \<and> int64 (customer_id a) \<and> int64 (barber_id a) \<and>
                    int64 (service_id a) \<and> valid_datetime (scheduled_at a))
       (appointments st)"

fun scalar_one_or_none :: "'a list \<Rightarrow> error + 'a option" where
  \<comment> \<open>SQLAlchemy's \<open>Result.scalar_one_or_none()\<close>\<close>
  "scalar_one_or_none [] = Inr None"
| "scalar_one_or_none [x] = Inr (Some x)"
| "scalar_one_or_none (x # y # zs) = Inl MultipleResultsFound"

section \<open>The services (app/services.py)\<close>

definition get_by_id_barber :: "db \<Rightarrow> int \<Rightarrow> error + Barber option" where
  \<comment> \<open>\<open>BarberService.get_by_id\<close>: the only condition of the query is the id\<close>
  "get_by_id_barber st bid =
     (case bind_int bid of
        Inl e \<Rightarrow> Inl e
      | Inr i \<Rightarrow> scalar_one_or_none (filter (\<lambda>b. id_barber b = i) (barbers st)))"

definition service_of :: "db \<Rightarrow> Appointment \<Rightarrow> Service option" where
  \<comment> \<open>the relationship \<open>apt.service\<close>, loaded by \<open>selectinload(Appointment.service)\<close>\<close>
  "service_of st apt = find (\<lambda>s. id_service s = service_id apt) (services st)"

definition is_active_status :: "AppointmentStatus \<Rightarrow> bool" where
  \<comment> \<open>\<open>Appointment.status.in_([SCHEDULED, CONFIRMED])\<close>\<close>
  "is_active_status s \<longleftrightarrow> s = SCHEDULED \<or> s = CONFIRMED"

subsection \<open>AppointmentService.create\<close>




subsection \<open>AppointmentService.get_barber_appointments\<close>

text \<open>
  The bounds of the day are computed first; \<open>start_of_day + timedelta(days=1)\<close> raises
  OverflowError for a date on 9999-12-31. The datetimes of the column are stored as
  texts of fixed width, so the comparisons of the query are the comparisons of the
  datetimes.
\<close>

definition get_barber_appointments :: "db \<Rightarrow> int \<Rightarrow> datetime \<Rightarrow> error + Appointment list" where
  "get_barber_appointments st bid date =
     (let start_of_day = replace_hour_minute date 0 0
      in case add_days start_of_day 1 of
           Inl e \<Rightarrow> Inl e
         | Inr end_of_day \<Rightarrow>
             (case bind_int bid of
                Inl e \<Rightarrow> Inl e
              | Inr i \<Rightarrow>
                  Inr (sort_key scheduled_at
                         (filter (\<lambda>a. barber_id a = i \<and>
                                      scheduled_at a \<ge> start_of_day \<and>
                                      scheduled_at a < end_of_day \<and>
                                      is_active_status (status a))
                                 (appointments st)))))"

subsection \<open>AppointmentService.check_availability\<close>

text \<open>
  \<open>end_time\<close> is computed in Python. The conditions of the query are evaluated by
  SQLite. In \<open>Appointment.scheduled_at + timedelta(minutes=30) > scheduled_at\<close> both
  operands of \<open>+\<close> are texts (the column, and the interval bound as the datetime
  1970-01-01 00:30:00); SQLite adds the numbers the texts begin with (the two years), and
  a number is smaller than every text, so the condition is false for every row and every
  parameter. The result is read with \<open>scalar_one_or_none\<close>, which raises when more than
  one row matches.
\<close>

definition sqlite_sum_gt :: "datetime \<Rightarrow> int \<Rightarrow> datetime \<Rightarrow> bool" where
  \<comment> \<open>the SQL condition \<open>column + :interval > :param\<close> on a \<open>DateTime\<close> column\<close>
  "sqlite_sum_gt column interval param = False"

definition check_availability :: "db \<Rightarrow> int \<Rightarrow> datetime \<Rightarrow> int \<Rightarrow> error + bool" where
  "check_availability st bid at dur =
     (case add_minutes at dur of
        Inl e \<Rightarrow> Inl e
      | Inr end_time \<Rightarrow>
          (case bind_int bid of
             Inl e \<Rightarrow> Inl e
           | Inr i \<Rightarrow>
               (let result = filter (\<lambda>a. barber_id a = i \<and>
                                         is_active_status (status a) \<and>
                                         ((scheduled_at a \<le> at \<and>
                                           sqlite_sum_gt (scheduled_at a) (timedelta_minutes 30) at) \<or>
                                          (scheduled_at a < end_time \<and>
                                           scheduled_at a \<ge> at)))
                                    (appointments st)
                in case scalar_one_or_none result of
                     Inl e \<Rightarrow> Inl e
                   | Inr existing \<Rightarrow> Inr (existing = None))))"

subsection \<open>AppointmentService.get_available_slots\<close>

text \<open>
  The inner loop over one appointment: \<open>current\<close> runs from \<open>apt.scheduled_at\<close> in steps
  of 30 minutes while it is before \<open>apt.scheduled_at + timedelta(minutes=apt_duration)\<close>,
  which the condition computes anew at every test, and each value is added to
  \<open>blocked_times\<close> truncated to the minute.
\<close>

function blocked_loop :: "datetime \<Rightarrow> int \<Rightarrow> datetime set \<Rightarrow> datetime
    \<Rightarrow> error + datetime set" where
  "blocked_loop apt_at apt_dur blocked_times current =
     (case add_minutes apt_at apt_dur of
        Inl e \<Rightarrow> Inl e
      | Inr limit \<Rightarrow>
          if current < limit
          then (case add_minutes current 30 of
                  Inl e \<Rightarrow> Inl e
                | Inr next \<Rightarrow>
                    blocked_loop apt_at apt_dur
                      (insert (replace_second current) blocked_times) next)
          else Inr blocked_times)"
  by pat_completeness auto
termination
  by (relation "measure (\<lambda>(apt_at, apt_dur, blocked_times, current).
        nat (apt_at + timedelta_minutes apt_dur - current))")
     (auto simp: add_minutes_def timedelta_minutes_def split: if_splits)

definition apt_duration :: "db \<Rightarrow> Appointment \<Rightarrow> int" where
  \<comment> \<open>\<open>apt.service.duration_minutes if apt.service else 30\<close>\<close>
  "apt_duration st apt =
     (case service_of st apt of Some s \<Rightarrow> duration_minutes s | None \<Rightarrow> 30)"

definition block_appointment :: "db \<Rightarrow> Appointment \<Rightarrow> datetime set
    \<Rightarrow> error + datetime set" where
  \<comment> \<open>the body of \<open>for apt in existing_appointments\<close>\<close>
  "block_appointment st apt blocked_times =
     blocked_loop (scheduled_at apt) (apt_duration st apt) blocked_times (scheduled_at apt)"

fun block_all :: "db \<Rightarrow> Appointment list \<Rightarrow> datetime set \<Rightarrow> error + datetime set" where
  \<comment> \<open>the loop \<open>for apt in existing_appointments\<close>\<close>
  "block_all st [] blocked_times = Inr blocked_times"
| "block_all st (apt # apts) blocked_times =
     (case block_appointment st apt blocked_times of
        Inl e \<Rightarrow> Inl e
      | Inr blocked_times' \<Rightarrow> block_all st apts blocked_times')"

definition blocked_times_of :: "db \<Rightarrow> int \<Rightarrow> datetime \<Rightarrow> error + datetime set" where
  \<comment> \<open>the set \<open>blocked_times\<close> after the loop over the day's appointments\<close>
  "blocked_times_of st bid date =
     (case get_barber_appointments st bid date of
        Inl e \<Rightarrow> Inl e
      | Inr existing_appointments \<Rightarrow> block_all st existing_appointments {})"

text \<open>
  The loop that tests one candidate: \<open>check_time\<close> runs from \<open>current_slot\<close> in steps of
  30 minutes while it is before \<open>current_slot + timedelta(minutes=service_duration)\<close>;
  the result is the final value of \<open>is_available\<close>.
\<close>

function check_loop :: "datetime set \<Rightarrow> datetime \<Rightarrow> int \<Rightarrow> datetime \<Rightarrow> error + bool" where
  "check_loop blocked_times current_slot service_duration check_time =
     (case add_minutes current_slot service_duration of
        Inl e \<Rightarrow> Inl e
      | Inr limit \<Rightarrow>
          if check_time < limit
          then (if check_time \<in> blocked_times then Inr False
                else (case add_minutes check_time 30 of
                        Inl e \<Rightarrow> Inl e
                      | Inr next \<Rightarrow>
                          check_loop blocked_times current_slot service_duration next))
          else Inr True)"
  by pat_completeness auto
termination
  by (relation "measure (\<lambda>(blocked_times, current_slot, service_duration, check_time).
        nat (current_slot + timedelta_minutes service_duration - check_time))")
     (auto simp: add_minutes_def timedelta_minutes_def split: if_splits)

text \<open>
  \<open>datetime.utcnow()\<close> is called inside the loop over the candidates, in the condition
  \<open>is_available and current_slot > datetime.utcnow()\<close>; Python's \<open>and\<close> evaluates it only
  when \<open>is_available\<close> holds. The clock is therefore a function from the number of
  earlier readings in the call to the reading. The loop carries that number and returns
  it beside the list, so that the readings a call takes can be counted. A candidate is
  appended before \<open>current_slot += timedelta(minutes=30)\<close> is computed; when that
  addition raises, the list is lost with the call.
\<close>

type_synonym clock = "nat \<Rightarrow> datetime"

function slot_loop :: "clock \<Rightarrow> nat \<Rightarrow> datetime set \<Rightarrow> int \<Rightarrow> datetime \<Rightarrow> datetime
    \<Rightarrow> error + (datetime list \<times> nat)" where
  "slot_loop utcnow n blocked_times service_duration end_of_day current_slot =
     (case add_minutes current_slot service_duration of
        Inl e \<Rightarrow> Inl e
      | Inr fin \<Rightarrow>
          if fin \<le> end_of_day
          then (case check_loop blocked_times current_slot service_duration current_slot of
                  Inl e \<Rightarrow> Inl e
                | Inr is_available \<Rightarrow>
                    (case add_minutes current_slot 30 of
                       Inl e \<Rightarrow> Inl e
                     | Inr next \<Rightarrow>
                         (case slot_loop utcnow (if is_available then Suc n else n)
                                 blocked_times service_duration end_of_day next of
                            Inl e \<Rightarrow> Inl e
                          | Inr (available_slots, m) \<Rightarrow>
                              Inr (if is_available \<and> current_slot > utcnow n
                                   then current_slot # available_slots
                                   else available_slots, m))))
          else Inr ([], n))"
  by pat_completeness auto
termination
  by (relation "measure (\<lambda>(utcnow, n, blocked_times, service_duration, end_of_day, current_slot).
        nat (end_of_day - timedelta_minutes service_duration - current_slot + 1))")
     (auto simp: add_minutes_def timedelta_minutes_def split: if_splits)

definition start_of_day :: "Barber \<Rightarrow> datetime \<Rightarrow> datetime" where
  "start_of_day barber date =
     replace_hour_minute date (hour (work_start barber)) (minute (work_start barber))"

definition end_of_day :: "Barber \<Rightarrow> datetime \<Rightarrow> datetime" where
  "end_of_day barber date =
     replace_hour_minute date (hour (work_end barber)) (minute (work_end barber))"

definition get_available_slots_run :: "db \<Rightarrow> clock \<Rightarrow> int \<Rightarrow> datetime \<Rightarrow> int
    \<Rightarrow> error + (datetime list \<times> nat)" where
  \<comment> \<open>one call of \<open>get_available_slots\<close>: the list it returns and the number of
      readings of the clock it has taken\<close>
  "get_available_slots_run st utcnow bid date service_duration =
     (case get_by_id_barber st bid of
        Inl e \<Rightarrow> Inl e
      | Inr None \<Rightarrow> Inr ([], 0)
      | Inr (Some barber) \<Rightarrow>
          (case blocked_times_of st bid date of
             Inl e \<Rightarrow> Inl e
           | Inr blocked_times \<Rightarrow>
               slot_loop utcnow 0 blocked_times service_duration
                 (end_of_day barber date) (start_of_day barber date)))"

definition get_available_slots :: "db \<Rightarrow> clock \<Rightarrow> int \<Rightarrow> datetime \<Rightarrow> int
    \<Rightarrow> error + datetime list" where
  "get_available_slots st utcnow bid date service_duration =
     (case get_available_slots_run st utcnow bid date service_duration of
        Inl e \<Rightarrow> Inl e
      | Inr (available_slots, n) \<Rightarrow> Inr available_slots)"

definition clock_readings :: "db \<Rightarrow> clock \<Rightarrow> int \<Rightarrow> datetime \<Rightarrow> int \<Rightarrow> error + nat" where
  \<comment> \<open>how often a call of \<open>get_available_slots\<close> reads the clock\<close>
  "clock_readings st utcnow bid date service_duration =
     (case get_available_slots_run st utcnow bid date service_duration of
        Inl e \<Rightarrow> Inl e
      | Inr (available_slots, n) \<Rightarrow> Inr n)"

section \<open>Grid points, representable bookings and concrete inputs\<close>

definition grid_point :: "datetime \<Rightarrow> nat \<Rightarrow> datetime" where
  \<comment> \<open>the instant \<open>k\<close> steps of 30 minutes after \<open>c\<close>\<close>
  "grid_point c k = c + timedelta_minutes (30 * int k)"

function candidates :: "datetime set \<Rightarrow> int \<Rightarrow> datetime \<Rightarrow> datetime \<Rightarrow> datetime list" where
  \<comment> \<open>the candidates from \<open>c\<close> on that fit before the end of the day and pass the test
      against the blocked set, in the order of the loop\<close>
  "candidates blocked_times d e c =
     (if c + timedelta_minutes d \<le> e
      then (if check_loop blocked_times c d c = Inr True
            then c # candidates blocked_times d e (c + timedelta_minutes 30)
            else candidates blocked_times d e (c + timedelta_minutes 30))
      else [])"
  by pat_completeness auto
termination
  by (relation "measure (\<lambda>(blocked_times, d, e, c). nat (e - timedelta_minutes d - c + 1))")
     (auto simp: timedelta_minutes_def)

text \<open>
  A booking is representable when the loop over it cannot leave Python's datetimes: its
  duration fits a \<open>timedelta\<close>, its end is a datetime, and so is the instant 30 minutes
  after its end, the furthest the loop steps.
\<close>

definition representable :: "db \<Rightarrow> Appointment \<Rightarrow> bool" where
  "representable st apt \<longleftrightarrow>
     timedelta_ok (apt_duration st apt div 1440) \<and>
     datetime_min \<le> scheduled_at apt \<and>
     valid_datetime (scheduled_at apt + timedelta_minutes (apt_duration st apt)) \<and>
     scheduled_at apt + timedelta_minutes (apt_duration st apt) + timedelta_minutes 30
       \<le> datetime_max"

definition frozen_clock :: "datetime \<Rightarrow> clock" where
  \<comment> \<open>a clock that gives the same reading at every call\<close>
  "frozen_clock t = (\<lambda>n. t)"

definition ticking_clock :: "datetime \<Rightarrow> clock" where
  \<comment> \<open>a clock that starts at \<open>t\<close> and has advanced by two microseconds at each
      further reading\<close>
  "ticking_clock t = (\<lambda>n. t + 2 * int n)"

definition mk_time :: "nat \<Rightarrow> nat \<Rightarrow> time" where
  \<comment> \<open>Python's \<open>time(h, m)\<close>\<close>
  "mk_time h m = \<lparr> hour = h, minute = m, second = 0, microsecond = 0 \<rparr>"

definition mk_appointment :: "int \<Rightarrow> int \<Rightarrow> int \<Rightarrow> datetime \<Rightarrow> AppointmentStatus
    \<Rightarrow> Appointment" where
  \<comment> \<open>an appointment row of customer 1 without notes\<close>
  "mk_appointment i bid sid t s =
     \<lparr> id_appointment = i, customer_id = 1, barber_id = bid, service_id = sid,
       scheduled_at = t, status = s, notes_appointment = None \<rparr>"

definition shop :: "bool \<Rightarrow> time \<Rightarrow> time \<Rightarrow> Appointment list \<Rightarrow> db" where
  \<comment> \<open>a store with one barber (id 1), a 30-minute service (id 1), a 60-minute service
      (id 2), one customer (id 1) and the given appointments\<close>
  "shop active ws we apts =
     \<lparr> barbers = [\<lparr> id_barber = 1, name_barber = ''Ana'', work_start = ws, work_end = we,
                     is_active_barber = active \<rparr>],
       services = [\<lparr> id_service = 1, name_service = ''Corte'', duration_minutes = 30,
                      is_active_service = True \<rparr>,
                   \<lparr> id_service = 2, name_service = ''Corte e barba'', duration_minutes = 60,
                      is_active_service = True \<rparr>],
       customers = [\<lparr> id_customer = 1, phone = ''5511999990000'' \<rparr>],
       appointments = apts,
       foreign_keys = True \<rparr>"

text \<open>
  The stores below all describe day 20094 (or the evening before it). Working hours are
  09:00 to 19:00 unless said otherwise.
\<close>

definition boundary_shop :: db where
  \<comment> \<open>one scheduled 30-minute booking at 09:00\<close>
  "boundary_shop = shop True (mk_time 9 0) (mk_time 19 0)
     [mk_appointment 1 1 1 (instant 20094 9 0 0) SCHEDULED]"

text \<open>No booking.\<close>

definition open_shop :: db where
  "open_shop = shop True (mk_time 9 0) (mk_time 19 0) []"

text \<open>No booking, and the only barber is inactive.\<close>

definition inactive_shop :: db where
  "inactive_shop = shop False (mk_time 9 0) (mk_time 19 0) []"

text \<open>One scheduled 30-minute booking at 10:00.\<close>

definition abutting_shop :: db where
  "abutting_shop = shop True (mk_time 9 0) (mk_time 19 0)
     [mk_appointment 1 1 1 (instant 20094 10 0 0) SCHEDULED]"

text \<open>One scheduled 60-minute booking at 10:00.\<close>

definition long_booking_shop :: db where
  "long_booking_shop = shop True (mk_time 9 0) (mk_time 19 0)
     [mk_appointment 1 1 2 (instant 20094 10 0 0) SCHEDULED]"

text \<open>Two 30-minute bookings that abut: 10:00 (scheduled) and 10:30 (confirmed).\<close>

definition two_bookings_shop :: db where
  "two_bookings_shop = shop True (mk_time 9 0) (mk_time 19 0)
     [mk_appointment 1 1 1 (instant 20094 10 0 0) SCHEDULED,
      mk_appointment 2 1 1 (instant 20094 10 30 0) CONFIRMED]"


text \<open>One scheduled 30-minute booking that starts at 09:00:30.\<close>

definition offgrid_shop :: db where
  "offgrid_shop = shop True (mk_time 9 0) (mk_time 19 0)
     [mk_appointment 1 1 1 (instant 20094 9 0 30) SCHEDULED]"

text \<open>Working hours 09:00 to 09:00, and 19:00 to 09:00.\<close>

definition zero_window_shop :: db where
  "zero_window_shop = shop True (mk_time 9 0) (mk_time 9 0) []"

definition reversed_shop :: db where
  "reversed_shop = shop True (mk_time 19 0) (mk_time 9 0) []"

text \<open>
  Working hours 00:00 to 02:00 and one scheduled 60-minute booking at 23:30 of the day
  before, which ends at 00:30 of day 20094.
\<close>

definition night_shop :: db where
  "night_shop = shop True (mk_time 0 0) (mk_time 2 0)
     [mk_appointment 1 1 2 (instant 20093 23 30 0) SCHEDULED]"

text \<open>One scheduled 30-minute booking at 09:00 of 9999-12-31, which is day 2932896.\<close>

definition last_day_shop :: db where
  "last_day_shop = shop True (mk_time 9 0) (mk_time 19 0)
     [mk_appointment 1 1 1 (instant 2932896 9 0 0) SCHEDULED]"

section \<open>The overlap rule as the specification words it\<close>

text \<open>
  These two definitions follow the specification, not the source: an existing booking
  conflicts with a candidate iff \<open>existingStart < candidateStart + candidateDuration\<close> and
  \<open>existingStart + existingDuration > candidateStart\<close>, where \<open>existingDuration\<close> is the
  duration of the booking's service (30 minutes when the service cannot be resolved), and
  a candidate is available iff no active booking of the provider conflicts with it. They
  are compared with \<open>check_availability\<close> below.
\<close>

definition conflicts_spec :: "db \<Rightarrow> Appointment \<Rightarrow> datetime \<Rightarrow> int \<Rightarrow> bool" where
  "conflicts_spec st existing candidateStart candidateDuration \<longleftrightarrow>
     scheduled_at existing < candidateStart + timedelta_minutes candidateDuration \<and>
     scheduled_at existing + timedelta_minutes (apt_duration st existing) > candidateStart"

definition isAvailable_spec :: "db \<Rightarrow> int \<Rightarrow> datetime \<Rightarrow> int \<Rightarrow> bool" where
  "isAvailable_spec st provider candidateStart candidateDuration \<longleftrightarrow>
     filter (\<lambda>a. barber_id a = provider \<and> is_active_status (status a) \<and>
                  conflicts_spec st a candidateStart candidateDuration)
            (appointments st) = []"

section \<open>Closed forms of the loops\<close>

declare blocked_loop.simps [simp del] check_loop.simps [simp del] slot_loop.simps [simp del]
  candidates.simps [simp del]

lemma grid_point_0: "grid_point c 0 = c"
  by (simp add: grid_point_def timedelta_minutes_def)

lemma grid_point_shift: "grid_point (c + timedelta_minutes 30) k = grid_point c (Suc k)"
  by (simp add: grid_point_def timedelta_minutes_def)

lemma grid_point_ge: "c \<le> grid_point c k"
  by (simp add: grid_point_def timedelta_minutes_def)

lemma grid_point_before: "grid_point c k < c + timedelta_minutes d \<longleftrightarrow> 30 * int k < d"
  by (simp add: grid_point_def timedelta_minutes_def)

lemma grid_exists_step:
  "(\<exists>k. P (grid_point c k)) \<longleftrightarrow> P c \<or> (\<exists>k. P (grid_point (c + timedelta_minutes 30) k))"
proof
  assume "\<exists>k. P (grid_point c k)"
  then obtain k where k: "P (grid_point c k)" ..
  show "P c \<or> (\<exists>k. P (grid_point (c + timedelta_minutes 30) k))"
  proof (cases k)
    case 0
    with k show ?thesis by (simp add: grid_point_0)
  next
    case (Suc j)
    with k have "P (grid_point (c + timedelta_minutes 30) j)" by (simp add: grid_point_shift)
    then show ?thesis by blast
  qed
next
  assume "P c \<or> (\<exists>k. P (grid_point (c + timedelta_minutes 30) k))"
  then show "\<exists>k. P (grid_point c k)"
  proof
    assume "P c"
    then have "P (grid_point c 0)" by (simp add: grid_point_0)
    then show ?thesis ..
  next
    assume "\<exists>k. P (grid_point (c + timedelta_minutes 30) k)"
    then obtain k where "P (grid_point (c + timedelta_minutes 30) k)" ..
    then have "P (grid_point c (Suc k))" by (simp add: grid_point_shift)
    then show ?thesis ..
  qed
qed

lemma grid_none_after: "\<not> c < limit \<Longrightarrow> \<not> grid_point c k < limit"
  using grid_point_ge[of c k] by simp

lemma add_minutes_Inr:
  "add_minutes dt k = Inr r \<longleftrightarrow>
     timedelta_ok (k div 1440) \<and> valid_datetime (dt + timedelta_minutes k) \<and>
     r = dt + timedelta_minutes k"
  by (auto simp: add_minutes_def)

lemma add_minutes_Inl: "add_minutes dt k = Inl e \<Longrightarrow> e = OverflowError"
  by (auto simp: add_minutes_def split: if_splits)

lemma add_minutes_30:
  "add_minutes dt 30 = Inr r \<longleftrightarrow> valid_datetime (dt + timedelta_minutes 30) \<and>
     r = dt + timedelta_minutes 30"
  by (auto simp: add_minutes_def timedelta_ok_def)

lemma add_days_Inl: "add_days dt k = Inl e \<Longrightarrow> e = OverflowError"
  by (auto simp: add_days_def split: if_splits)

lemma bind_int_Inl: "bind_int i = Inl e \<Longrightarrow> e = OverflowError"
  by (auto simp: bind_int_def split: if_splits)

subsection \<open>The loop over one appointment\<close>

lemma blocked_loop_Inr:
  "blocked_loop a dur B cur = Inr B' \<Longrightarrow>
     B' = B \<union> {replace_second (grid_point cur k) | k.
                grid_point cur k < a + timedelta_minutes dur}"
proof (induction a dur B cur rule: blocked_loop.induct)
  case (1 a dur B cur)
  let ?limit = "a + timedelta_minutes dur"
  let ?S = "\<lambda>c. {replace_second (grid_point c k) | k. grid_point c k < ?limit}"
  from "1.prems" obtain limit where lim: "add_minutes a dur = Inr limit"
    by (subst (asm) blocked_loop.simps) (auto split: sum.splits)
  then have limit: "limit = ?limit" by (simp add: add_minutes_Inr)
  show ?case
  proof (cases "cur < limit")
    case False
    with "1.prems" lim have "B' = B"
      by (subst (asm) blocked_loop.simps) simp
    moreover have "?S cur = {}"
      using False grid_none_after[of cur ?limit] by (auto simp: limit)
    ultimately show ?thesis by simp
  next
    case True
    with "1.prems" lim obtain nxt where nxt: "add_minutes cur 30 = Inr nxt"
      and rec: "blocked_loop a dur (insert (replace_second cur) B) nxt = Inr B'"
      by (subst (asm) blocked_loop.simps) (auto split: sum.splits)
    from nxt have nxt_eq: "nxt = cur + timedelta_minutes 30" by (simp add: add_minutes_30)
    from "1.IH"[OF lim True nxt rec]
    have "B' = insert (replace_second cur) B \<union> ?S nxt" .
    moreover have "?S cur = insert (replace_second cur) (?S nxt)"
    proof -
      have "x \<in> ?S cur \<longleftrightarrow> x \<in> insert (replace_second cur) (?S nxt)" for x
        using grid_exists_step
          [of "\<lambda>t. x = replace_second t \<and> t < ?limit" cur] True
        by (auto simp: limit nxt_eq)
      then show ?thesis by blast
    qed
    ultimately show ?thesis by auto
  qed
qed

lemma blocked_loop_Inl: "blocked_loop a dur B cur = Inl e \<Longrightarrow> e = OverflowError"
proof (induction a dur B cur rule: blocked_loop.induct)
  case (1 a dur B cur)
  show ?case
  proof (cases "add_minutes a dur")
    case (Inl e')
    with "1.prems" have "e = e'" by (subst (asm) blocked_loop.simps) simp
    with Inl show ?thesis by (simp add: add_minutes_Inl)
  next
    case (Inr limit)
    show ?thesis
    proof (cases "cur < limit")
      case False
      with "1.prems" Inr show ?thesis by (subst (asm) blocked_loop.simps) simp
    next
      case True
      show ?thesis
      proof (cases "add_minutes cur 30")
        case (Inl e')
        with "1.prems" Inr True have "e = e'" by (subst (asm) blocked_loop.simps) simp
        with Inl show ?thesis by (simp add: add_minutes_Inl)
      next
        case nxt: (Inr nxt)
        with "1.prems" Inr True
        have "blocked_loop a dur (insert (replace_second cur) B) nxt = Inl e"
          by (subst (asm) blocked_loop.simps) simp
        from "1.IH"[OF Inr True nxt this] show ?thesis .
      qed
    qed
  qed
qed

lemma blocked_loop_succeeds:
  assumes "timedelta_ok (dur div 1440)" "valid_datetime (a + timedelta_minutes dur)"
    and "a + timedelta_minutes dur + timedelta_minutes 30 \<le> datetime_max"
    and "datetime_min \<le> cur"
  shows "\<exists>B'. blocked_loop a dur B cur = Inr B'"
  using assms
proof (induction a dur B cur rule: blocked_loop.induct)
  case (1 a dur B cur)
  let ?limit = "a + timedelta_minutes dur"
  have lim: "add_minutes a dur = Inr ?limit"
    using "1.prems" by (simp add: add_minutes_Inr)
  show ?case
  proof (cases "cur < ?limit")
    case False
    with lim show ?thesis by (subst blocked_loop.simps) simp
  next
    case True
    let ?nxt = "cur + timedelta_minutes 30"
    have "valid_datetime ?nxt"
      using True "1.prems" by (simp add: valid_datetime_def timedelta_minutes_def)
    then have nxt: "add_minutes cur 30 = Inr ?nxt" by (simp add: add_minutes_30)
    have "datetime_min \<le> ?nxt"
      using "1.prems" by (simp add: timedelta_minutes_def)
    from "1.IH"[OF lim True nxt "1.prems"(1,2,3) this]
    obtain B' where "blocked_loop a dur (insert (replace_second cur) B) ?nxt = Inr B'" ..
    with lim True nxt show ?thesis by (subst blocked_loop.simps) simp
  qed
qed

subsection \<open>The loop over the appointments of the day\<close>

lemma block_appointment_Inr:
  "block_appointment st apt B = Inr B' \<Longrightarrow>
     B' = B \<union> {replace_second (scheduled_at apt + timedelta_minutes (30 * int k)) | k.
                30 * int k < apt_duration st apt}"
  unfolding block_appointment_def
  by (drule blocked_loop_Inr) (simp only: grid_point_before, simp only: grid_point_def)

lemma block_all_Inr:
  "block_all st apts B = Inr B' \<Longrightarrow>
     B' = B \<union> (\<Union>apt\<in>set apts.
            {replace_second (scheduled_at apt + timedelta_minutes (30 * int k)) | k.
             30 * int k < apt_duration st apt})"
proof (induction apts arbitrary: B)
  case Nil
  then show ?case by simp
next
  case (Cons a apts)
  from Cons.prems obtain B1 where a: "block_appointment st a B = Inr B1"
    and rest: "block_all st apts B1 = Inr B'"
    by (auto split: sum.splits)
  from Cons.IH[OF rest] block_appointment_Inr[OF a] show ?case by auto
qed

lemma block_all_Inl: "block_all st apts B = Inl e \<Longrightarrow> e = OverflowError"
proof (induction apts arbitrary: B)
  case Nil
  then show ?case by simp
next
  case (Cons a apts)
  show ?case
  proof (cases "block_appointment st a B")
    case (Inl e')
    with Cons.prems have "e = e'" by simp
    with Inl show ?thesis by (simp add: block_appointment_def blocked_loop_Inl)
  next
    case (Inr B1)
    with Cons.prems have "block_all st apts B1 = Inl e" by simp
    then show ?thesis by (rule Cons.IH)
  qed
qed

lemma block_all_succeeds:
  "list_all (representable st) apts \<Longrightarrow> \<exists>B'. block_all st apts B = Inr B'"
proof (induction apts arbitrary: B)
  case Nil
  show ?case by simp
next
  case (Cons a apts)
  then have "representable st a" and rest: "list_all (representable st) apts" by simp_all
  then obtain B1 where "block_appointment st a B = Inr B1"
    unfolding block_appointment_def representable_def
    using blocked_loop_succeeds[of "apt_duration st a" "scheduled_at a" "scheduled_at a" B]
    by blast
  moreover from Cons.IH[OF rest] obtain B' where "block_all st apts B1 = Inr B'" ..
  ultimately show ?case by simp
qed

subsection \<open>The test of one candidate\<close>

lemma check_loop_Inr:
  "check_loop B c d t = Inr b \<Longrightarrow>
     b \<longleftrightarrow> (\<forall>k. grid_point t k < c + timedelta_minutes d \<longrightarrow> grid_point t k \<notin> B)"
proof (induction B c d t arbitrary: b rule: check_loop.induct)
  case (1 B c d t)
  let ?limit = "c + timedelta_minutes d"
  from "1.prems" obtain limit where lim: "add_minutes c d = Inr limit"
    by (subst (asm) check_loop.simps) (auto split: sum.splits)
  then have limit: "limit = ?limit" by (simp add: add_minutes_Inr)
  show ?case
  proof (cases "t < limit")
    case False
    with "1.prems" lim have "b" by (subst (asm) check_loop.simps) simp
    moreover have "\<And>k. \<not> grid_point t k < ?limit"
      using False grid_none_after[of t ?limit] by (simp add: limit)
    ultimately show ?thesis by simp
  next
    case True
    show ?thesis
    proof (cases "t \<in> B")
      case inB: True
      with "1.prems" lim True have "\<not> b" by (subst (asm) check_loop.simps) simp
      moreover have "grid_point t 0 < ?limit \<and> grid_point t 0 \<in> B"
        using True inB by (simp add: grid_point_0 limit)
      ultimately show ?thesis by blast
    next
      case notB: False
      with "1.prems" lim True obtain nxt where nxt: "add_minutes t 30 = Inr nxt"
        and rec: "check_loop B c d nxt = Inr b"
        by (subst (asm) check_loop.simps) (auto split: sum.splits)
      from nxt have nxt_eq: "nxt = t + timedelta_minutes 30" by (simp add: add_minutes_30)
      from "1.IH"[OF lim True notB nxt rec]
      have "b \<longleftrightarrow> (\<forall>k. grid_point nxt k < ?limit \<longrightarrow> grid_point nxt k \<notin> B)" .
      also have "\<dots> \<longleftrightarrow> (\<forall>k. grid_point t k < ?limit \<longrightarrow> grid_point t k \<notin> B)"
        using grid_exists_step[of "\<lambda>x. x < ?limit \<and> x \<in> B" t] notB
        by (auto simp: nxt_eq)
      finally show ?thesis .
    qed
  qed
qed

lemma check_loop_Inl: "check_loop B c d t = Inl e \<Longrightarrow> e = OverflowError"
proof (induction B c d t rule: check_loop.induct)
  case (1 B c d t)
  show ?case
  proof (cases "add_minutes c d")
    case (Inl e')
    with "1.prems" have "e = e'" by (subst (asm) check_loop.simps) simp
    with Inl show ?thesis by (simp add: add_minutes_Inl)
  next
    case (Inr limit)
    show ?thesis
    proof (cases "t < limit \<and> t \<notin> B")
      case False
      with "1.prems" Inr show ?thesis
        by (subst (asm) check_loop.simps) (auto split: if_splits)
    next
      case True
      show ?thesis
      proof (cases "add_minutes t 30")
        case (Inl e')
        with "1.prems" Inr True have "e = e'" by (subst (asm) check_loop.simps) simp
        with Inl show ?thesis by (simp add: add_minutes_Inl)
      next
        case nxt: (Inr nxt)
        with "1.prems" Inr True have "check_loop B c d nxt = Inl e"
          by (subst (asm) check_loop.simps) simp
        from "1.IH"[OF Inr _ _ nxt this] True show ?thesis by simp
      qed
    qed
  qed
qed

subsection \<open>The loop over the candidates\<close>

lemma slot_loop_Inl: "slot_loop clk n B d e c = Inl er \<Longrightarrow> er = OverflowError"
proof (induction clk n B d e c rule: slot_loop.induct)
  case (1 clk n B d e c)
  show ?case
  proof (cases "add_minutes c d")
    case (Inl e')
    with "1.prems" have "er = e'" by (subst (asm) slot_loop.simps) simp
    with Inl show ?thesis by (simp add: add_minutes_Inl)
  next
    case fin: (Inr fin)
    show ?thesis
    proof (cases "fin \<le> e")
      case False
      with "1.prems" fin show ?thesis by (subst (asm) slot_loop.simps) simp
    next
      case True
      show ?thesis
      proof (cases "check_loop B c d c")
        case (Inl e')
        with "1.prems" fin True have "er = e'" by (subst (asm) slot_loop.simps) simp
        with Inl show ?thesis by (simp add: check_loop_Inl)
      next
        case av: (Inr av)
        show ?thesis
        proof (cases "add_minutes c 30")
          case (Inl e')
          with "1.prems" fin True av have "er = e'" by (subst (asm) slot_loop.simps) simp
          with Inl show ?thesis by (simp add: add_minutes_Inl)
        next
          case nxt: (Inr nxt)
          with "1.prems" fin True av
          have "slot_loop clk (if av then Suc n else n) B d e nxt = Inl er"
            by (subst (asm) slot_loop.simps) (auto split: sum.splits prod.splits)
          from "1.IH"[OF fin True av nxt this] show ?thesis .
        qed
      qed
    qed
  qed
qed

lemma candidates_set:
  "t \<in> set (candidates B d e c) \<longleftrightarrow>
     (\<exists>k. t = grid_point c k) \<and> t + timedelta_minutes d \<le> e \<and> check_loop B t d t = Inr True"
proof (induction B d e c rule: candidates.induct)
  case (1 B d e c)
  let ?nxt = "c + timedelta_minutes 30"
  let ?P = "\<lambda>x. t = x \<and> x + timedelta_minutes d \<le> e \<and> check_loop B x d x = Inr True"
  have R: "(\<exists>k. t = grid_point c k) \<and> t + timedelta_minutes d \<le> e \<and>
        check_loop B t d t = Inr True \<longleftrightarrow> (\<exists>k. ?P (grid_point c k))"
    by blast
  show ?case
  proof (cases "c + timedelta_minutes d \<le> e")
    case False
    have "\<not> ?P (grid_point c k)" for k
      using False grid_point_ge[of c k] by simp
    moreover have "candidates B d e c = []"
      using False by (subst candidates.simps) simp
    ultimately show ?thesis unfolding R by simp
  next
    case guard: True
    have step: "(\<exists>k. ?P (grid_point c k)) \<longleftrightarrow> ?P c \<or> (\<exists>k. ?P (grid_point ?nxt k))"
      by (rule grid_exists_step)
    show ?thesis
    proof (cases "check_loop B c d c = Inr True")
      case True
      have "candidates B d e c = c # candidates B d e ?nxt"
        using guard True by (subst candidates.simps) simp
      moreover from "1.IH"(1)[OF guard True]
      have "t \<in> set (candidates B d e ?nxt) \<longleftrightarrow> (\<exists>k. ?P (grid_point ?nxt k))" by blast
      ultimately show ?thesis unfolding R step using guard True by auto
    next
      case False
      have "candidates B d e c = candidates B d e ?nxt"
        using guard False by (subst candidates.simps) simp
      moreover from "1.IH"(2)[OF guard False]
      have "t \<in> set (candidates B d e ?nxt) \<longleftrightarrow> (\<exists>k. ?P (grid_point ?nxt k))" by blast
      ultimately show ?thesis unfolding R step using False by auto
    qed
  qed
qed

lemma candidates_lower: "t \<in> set (candidates B d e (c + timedelta_minutes 30)) \<Longrightarrow> c < t"
proof -
  assume "t \<in> set (candidates B d e (c + timedelta_minutes 30))"
  then obtain k where "t = grid_point (c + timedelta_minutes 30) k"
    by (auto simp: candidates_set)
  then have "c + timedelta_minutes 30 \<le> t" by (simp add: grid_point_ge)
  then show ?thesis by (simp add: timedelta_minutes_def)
qed

lemma candidates_sorted: "sorted_wrt (<) (candidates B d e c)"
proof (induction B d e c rule: candidates.induct)
  case (1 B d e c)
  let ?nxt = "c + timedelta_minutes 30"
  show ?case
  proof (cases "c + timedelta_minutes d \<le> e")
    case False
    then show ?thesis by (subst candidates.simps) simp
  next
    case guard: True
    show ?thesis
    proof (cases "check_loop B c d c = Inr True")
      case True
      have "\<forall>t\<in>set (candidates B d e ?nxt). c < t"
        using candidates_lower by blast
      with guard True "1.IH"(1) show ?thesis by (subst candidates.simps) simp
    next
      case False
      with guard "1.IH"(2) show ?thesis by (subst candidates.simps) simp
    qed
  qed
qed

lemma slot_loop_candidates:
  "slot_loop clk n B d e c = Inr (slots, m) \<Longrightarrow>
     m = n + length (candidates B d e c) \<and>
     slots = map fst (filter (\<lambda>(t, i). clk i < t) (zip (candidates B d e c) [n..<m]))"
proof (induction clk n B d e c arbitrary: slots m rule: slot_loop.induct)
  case (1 clk n B d e c)
  from "1.prems" obtain fin where fin: "add_minutes c d = Inr fin"
    by (subst (asm) slot_loop.simps) (auto split: sum.splits)
  then have fin_eq: "fin = c + timedelta_minutes d" by (simp add: add_minutes_Inr)
  show ?case
  proof (cases "fin \<le> e")
    case False
    with "1.prems" fin have "slots = []" "m = n"
      by (subst (asm) slot_loop.simps, simp)+
    moreover have "candidates B d e c = []"
      using False by (subst candidates.simps) (simp add: fin_eq)
    ultimately show ?thesis by simp
  next
    case guard: True
    from "1.prems" fin guard obtain av nxt slots' where av: "check_loop B c d c = Inr av"
      and nxt: "add_minutes c 30 = Inr nxt"
      and rec: "slot_loop clk (if av then Suc n else n) B d e nxt = Inr (slots', m)"
      and slots: "slots = (if av \<and> c > clk n then c # slots' else slots')"
      by (subst (asm) slot_loop.simps) (auto split: sum.splits)
    from nxt have nxt_eq: "nxt = c + timedelta_minutes 30" by (simp add: add_minutes_30)
    let ?cs = "candidates B d e nxt"
    from "1.IH"[OF fin guard av nxt rec]
    have m: "m = (if av then Suc n else n) + length ?cs"
      and slots': "slots' = map fst (filter (\<lambda>(t, i). clk i < t)
                                 (zip ?cs [(if av then Suc n else n)..<m]))"
      by simp_all
    show ?thesis
    proof (cases av)
      case True
      have cs: "candidates B d e c = c # ?cs"
        using guard av True by (subst candidates.simps) (simp add: fin_eq nxt_eq)
      from m True have "n < m" by simp
      then have "[n..<m] = n # [Suc n..<m]" by (rule upt_conv_Cons)
      with m slots slots' True show ?thesis by (simp add: cs)
    next
      case False
      have cs: "candidates B d e c = ?cs"
        using guard av False by (subst candidates.simps) (simp add: fin_eq nxt_eq)
      from m slots slots' False show ?thesis by (simp add: cs)
    qed
  qed
qed


lemma zip_filter_index:
  assumes "x \<in> set (map fst (filter (\<lambda>(t, i). clk i < t) (zip cs [0..<length cs])))"
  shows "\<exists>i<length cs. x = cs ! i \<and> clk i < x"
proof -
  from assms obtain i where "(x, i) \<in> set (zip cs [0..<length cs])" "clk i < x"
    by auto
  then show ?thesis by (auto simp: in_set_zip)
qed

section \<open>Facts about the queries\<close>

lemmas eval_defs = get_available_slots_def get_available_slots_run_def clock_readings_def
  get_by_id_barber_def bind_int_def int64_def shop_def mk_time_def mk_appointment_def
  blocked_times_of_def get_barber_appointments_def add_days_def add_minutes_def
  timedelta_ok_def valid_datetime_def datetime_min_def datetime_max_def
  block_appointment_def apt_duration_def service_of_def start_of_day_def end_of_day_def
  instant_def timedelta_minutes_def timedelta_days_def replace_hour_minute_def
  replace_second_def frozen_clock_def is_active_status_def Let_def

lemma scalar_none_iff: "scalar_one_or_none xs = Inr None \<longleftrightarrow> xs = []"
  by (cases xs rule: scalar_one_or_none.cases) simp_all

lemma scalar_one_or_none_map:
  "scalar_one_or_none (map g xs) =
     (case scalar_one_or_none xs of Inl e \<Rightarrow> Inl e | Inr r \<Rightarrow> Inr (map_option g r))"
  by (cases xs rule: scalar_one_or_none.cases) simp_all

lemma get_by_id_barber_int64: "get_by_id_barber st bid = Inr r \<Longrightarrow> int64 bid"
  by (auto simp: get_by_id_barber_def bind_int_def split: if_splits)

lemma filter_refine:
  "filter (\<lambda>a. barber_id a = bid \<and> is_active_status (status a) \<and> Q a) xs =
   filter Q (filter (\<lambda>a. barber_id a = bid \<and> is_active_status (status a)) xs)"
  by (induction xs) auto

lemma day_bounds:
  assumes "valid_datetime (D * 86400000000 + k)" "0 \<le> k" "k < 86400000000"
  shows "- 719162 \<le> D \<and> D \<le> 2932896"
  using assms unfolding valid_datetime_def datetime_min_def datetime_max_def by arith

lemma valid_in_day:
  assumes "- 719162 \<le> D" "D \<le> 2932896" "0 \<le> k" "k < 86400000000"
  shows "valid_datetime (D * 86400000000 + k)"
  using assms unfolding valid_datetime_def datetime_min_def datetime_max_def by arith

text \<open>What \<open>check_availability\<close> decides.\<close>

lemma check_availability_rows:
  "check_availability st bid t0 dur = Inr True \<longleftrightarrow>
     int64 bid \<and>
     (\<exists>end_time. add_minutes t0 dur = Inr end_time \<and>
        filter (\<lambda>a. barber_id a = bid \<and> is_active_status (status a) \<and>
                     scheduled_at a < end_time \<and> scheduled_at a \<ge> t0)
               (appointments st) = [])"
  unfolding check_availability_def Let_def
  by (auto simp: bind_int_def scalar_none_iff sqlite_sum_gt_def split: sum.splits if_splits)

lemma check_availability_inside_booking:
  "check_availability abutting_shop 1 (instant 20094 10 15 0) 30 = Inr True \<and>
   \<not> isAvailable_spec abutting_shop 1 (instant 20094 10 15 0) 30"
  by (simp add: check_availability_def isAvailable_spec_def conflicts_spec_def
      abutting_shop_def sqlite_sum_gt_def eval_defs)

lemma get_by_id_barber_flags:
  "get_by_id_barber (st\<lparr>barbers := map (\<lambda>b. b\<lparr>is_active_barber := flag b\<rparr>) (barbers st)\<rparr>) bid =
     (case get_by_id_barber st bid of
        Inl e \<Rightarrow> Inl e
      | Inr r \<Rightarrow> Inr (map_option (\<lambda>b. b\<lparr>is_active_barber := flag b\<rparr>) r))"
  by (simp add: get_by_id_barber_def filter_map o_def scalar_one_or_none_map
      split: sum.splits)

lemma blocked_times_of_same_day:
  assumes "services st' = services st"
    and "get_barber_appointments st' bid date = get_barber_appointments st bid date"
  shows "blocked_times_of st' bid date = blocked_times_of st bid date"
proof -
  have "block_appointment st' = block_appointment st"
    by (intro ext) (simp add: block_appointment_def apt_duration_def service_of_def assms(1))
  then have "block_all st' apts B = block_all st apts B" for apts B
    by (induction apts arbitrary: B) (simp_all cong: sum.case_cong)
  then show ?thesis by (simp add: blocked_times_of_def assms(2) cong: sum.case_cong)
qed

lemma get_available_slots_cong:
  assumes "barbers st' = barbers st" "services st' = services st"
    and "get_barber_appointments st' bid date = get_barber_appointments st bid date"
  shows "get_available_slots st' utcnow bid date d = get_available_slots st utcnow bid date d"
proof -
  have "blocked_times_of st' bid date = blocked_times_of st bid date"
    using assms(2,3) by (rule blocked_times_of_same_day)
  then show ?thesis
    by (simp add: get_available_slots_def get_available_slots_run_def get_by_id_barber_def
        assms(1) cong: sum.case_cong option.case_cong)
qed

section \<open>Facts about days and minutes\<close>

lemma day_of_date:
  assumes "instant D 0 0 0 \<le> date" "date < instant (D + 1) 0 0 0"
  shows "date div 86400000000 = D"
proof -
  have "date = 86400000000 * D + (date - 86400000000 * D)" by simp
  moreover have "0 \<le> date - 86400000000 * D" using assms(1) by (simp add: instant_def)
  moreover have "date - 86400000000 * D < 86400000000" using assms(2) by (simp add: instant_def algebra_simps)
  ultimately show ?thesis by (rule int_div_pos_eq)
qed

lemma replace_second_whole_minute: "replace_second (k * 60000000) = k * 60000000"
  by (simp add: replace_second_def)

lemma instant_whole_minute: "instant D h m 0 = (D * 1440 + h * 60 + m) * 60000000"
  by (simp add: instant_def algebra_simps)

lemma replace_second_instant: "replace_second (instant D h m 0) = instant D h m 0"
  by (simp only: instant_whole_minute replace_second_whole_minute)

lemma returned_map_sum:
  "(case r of Inl e \<Rightarrow> Inl e | Inr (slots, n) \<Rightarrow> Inr slots) = map_sum id fst r"
  by (cases r) auto

lemma slot_loop_early_clock:
  "(\<forall>i. clk i < c) \<Longrightarrow> (\<forall>i. clk' i < c) \<Longrightarrow>
     map_sum id fst (slot_loop clk n B d e c) = map_sum id fst (slot_loop clk' n' B d e c)"
proof (induction clk n B d e c arbitrary: n' rule: slot_loop.induct)
  case (1 clk n B d e c)
  have now: "clk n < c" "clk' n' < c" using "1.prems" by auto
  show ?case
  proof (cases "add_minutes c d")
    case (Inl er)
    then show ?thesis by (simp add: slot_loop.simps[of _ _ B d e c])
  next
    case fin: (Inr fin)
    show ?thesis
    proof (cases "fin \<le> e")
      case False
      with fin show ?thesis by (simp add: slot_loop.simps[of _ _ B d e c])
    next
      case guard: True
      show ?thesis
      proof (cases "check_loop B c d c")
        case (Inl er)
        with fin guard show ?thesis by (simp add: slot_loop.simps[of _ _ B d e c])
      next
        case av: (Inr av)
        show ?thesis
        proof (cases "add_minutes c 30")
          case (Inl er)
          with fin guard av show ?thesis by (simp add: slot_loop.simps[of _ _ B d e c])
        next
          case nxt: (Inr nxt)
          then have "nxt = c + timedelta_minutes 30" by (simp add: add_minutes_30)
          then have lt: "\<forall>i. clk i < nxt" "\<forall>i. clk' i < nxt"
            using "1.prems" by (auto simp: timedelta_minutes_def intro: less_trans)
          from "1.IH"[OF fin guard av nxt lt]
          have IH: "map_sum id fst (slot_loop clk (if av then Suc n else n) B d e nxt) =
                map_sum id fst (slot_loop clk' (if av then Suc n' else n') B d e nxt)" .
          show ?thesis
          proof (cases "slot_loop clk (if av then Suc n else n) B d e nxt")
            case (Inl er)
            with IH have "slot_loop clk' (if av then Suc n' else n') B d e nxt = Inl er"
              by (cases "slot_loop clk' (if av then Suc n' else n') B d e nxt") simp_all
            with Inl fin guard av nxt show ?thesis
              by (simp add: slot_loop.simps[of _ _ B d e c])
          next
            case (Inr r)
            obtain slots m where r: "r = (slots, m)" by (cases r)
            with IH Inr obtain m' where
              "slot_loop clk' (if av then Suc n' else n') B d e nxt = Inr (slots, m')"
              by (cases "slot_loop clk' (if av then Suc n' else n') B d e nxt") auto
            with Inr r fin guard av nxt now show ?thesis
              by (simp add: slot_loop.simps[of _ _ B d e c])
          qed
        qed
      qed
    qed
  qed
qed

lemma get_barber_appointments_Inr:
  assumes "int64 bid"
    and "valid_datetime (replace_hour_minute date 0 0 + timedelta_days 1)"
  shows "get_barber_appointments st bid date =
     Inr (sort_key scheduled_at
       (filter (\<lambda>a. replace_hour_minute date 0 0 \<le> scheduled_at a \<and>
                    scheduled_at a < replace_hour_minute date 0 0 + timedelta_days 1)
          (filter (\<lambda>a. barber_id a = bid \<and> is_active_status (status a)) (appointments st))))"
proof -
  have f: "filter (\<lambda>a. barber_id a = bid \<and> scheduled_at a \<ge> lo \<and> scheduled_at a < hi \<and>
                     is_active_status (status a)) xs =
        filter (\<lambda>a. lo \<le> scheduled_at a \<and> scheduled_at a < hi)
          (filter (\<lambda>a. barber_id a = bid \<and> is_active_status (status a)) xs)" for lo hi xs
    by (induction xs) auto
  have a: "add_days (replace_hour_minute date 0 0) 1 =
      Inr (replace_hour_minute date 0 0 + timedelta_days 1)"
    using assms(2) by (simp add: add_days_def timedelta_ok_def)
  have "get_barber_appointments st bid date =
      Inr (sort_key scheduled_at
        (filter (\<lambda>a. barber_id a = bid \<and> scheduled_at a \<ge> replace_hour_minute date 0 0 \<and>
                     scheduled_at a < replace_hour_minute date 0 0 + timedelta_days 1 \<and>
                     is_active_status (status a)) (appointments st)))"
    by (simp only: get_barber_appointments_def Let_def a sum.case bind_int_def assms(1) if_True)
  also have "\<dots> = Inr (sort_key scheduled_at
       (filter (\<lambda>a. replace_hour_minute date 0 0 \<le> scheduled_at a \<and>
                    scheduled_at a < replace_hour_minute date 0 0 + timedelta_days 1)
          (filter (\<lambda>a. barber_id a = bid \<and> is_active_status (status a)) (appointments st))))"
    by (subst f) (rule refl)
  finally show ?thesis .
qed

lemma replace_second_step:
  assumes "replace_second c = c"
  shows "replace_second (c + timedelta_minutes j) = c + timedelta_minutes j"
proof -
  have "c = (c div 60000000) * 60000000" using assms by (simp add: replace_second_def)
  then have "c + timedelta_minutes j = (c div 60000000 + j) * 60000000"
    by (simp add: timedelta_minutes_def algebra_simps)
  then show ?thesis by (metis replace_second_whole_minute)
qed

lemma time_le_minutes:
  assumes "time_le t1 t2" "valid_time t1"
  shows "int (hour t1) * 60 + int (minute t1) \<le> int (hour t2) * 60 + int (minute t2)"
  using assms unfolding time_le_def valid_time_def by auto

lemma get_barber_appointments_Inl:
  "get_barber_appointments st bid date = Inl e \<Longrightarrow> e = OverflowError"
  by (auto simp: get_barber_appointments_def Let_def add_days_def bind_int_def
      split: sum.splits if_splits)

lemma blocked_times_of_Inl: "blocked_times_of st bid date = Inl e \<Longrightarrow> e = OverflowError"
  by (auto simp: blocked_times_of_def split: sum.splits
      dest: get_barber_appointments_Inl block_all_Inl)

lemma get_available_slots_run_Inr:
  assumes "get_available_slots_run st utcnow bid date d = Inr (slots, n)"
  shows "(get_by_id_barber st bid = Inr None \<and> slots = [] \<and> n = 0) \<or>
         (\<exists>barber B. get_by_id_barber st bid = Inr (Some barber) \<and>
            blocked_times_of st bid date = Inr B \<and>
            slot_loop utcnow 0 B d (end_of_day barber date) (start_of_day barber date) =
              Inr (slots, n))"
  using assms
  by (auto simp: get_available_slots_run_def split: sum.splits option.splits)

lemma get_available_slots_Inr:
  "get_available_slots st utcnow bid date d = Inr slots \<longleftrightarrow>
     (\<exists>n. get_available_slots_run st utcnow bid date d = Inr (slots, n))"
  by (auto simp: get_available_slots_def split: sum.splits)


lemma boundary_shop_afternoon:
  "get_available_slots_run boundary_shop (frozen_clock (instant 20094 14 0 0)) 1
     (instant 20094 0 0 0) 30 =
   Inr ([instant 20094 14 30 0, instant 20094 15 0 0, instant 20094 15 30 0,
        instant 20094 16 0 0, instant 20094 16 30 0, instant 20094 17 0 0,
        instant 20094 17 30 0, instant 20094 18 0 0, instant 20094 18 30 0], 19)"
  by (simp add: boundary_shop_def eval_defs slot_loop.simps check_loop.simps
      blocked_loop.simps)

section \<open>Conflict detection: \<open>check_availability\<close>\<close>

text \<open>
  C1. The claim: \<open>check_availability\<close> returns true iff no active booking of the provider
  conflicts with the candidate under the half-open rule, with the existing booking's own
  duration. The source does not implement this rule. Its query has two branches. The
  first is written for the bookings that start at or before the candidate: it adds a
  fixed 30 minutes, not the duration of the booking, and SQLite evaluates it to false
  for every row. The second finds the bookings that start within the span of the
  candidate. The rows are read with \<open>scalar_one_or_none\<close>. The theorem evaluates the
  function on two stores: with a 60-minute booking at 10:00, a 30-minute candidate at
  10:30 is reported available although the rule of the claim finds a conflict; with
  30-minute bookings at 10:00 and 10:30, a 60-minute candidate at 10:00 matches two rows,
  and the call raises MultipleResultsFound instead of returning false.
\<close>

theorem check_availability_diverges:
  "check_availability long_booking_shop 1 (instant 20094 10 30 0) 30 = Inr True \<and>
   \<not> isAvailable_spec long_booking_shop 1 (instant 20094 10 30 0) 30 \<and>
   check_availability two_bookings_shop 1 (instant 20094 10 0 0) 60 =
     Inl MultipleResultsFound \<and>
   \<not> isAvailable_spec two_bookings_shop 1 (instant 20094 10 0 0) 60"
  by (simp add: check_availability_def isAvailable_spec_def conflicts_spec_def
      long_booking_shop_def two_bookings_shop_def sqlite_sum_gt_def eval_defs)

text \<open>
  C5 (abutting bookings). The rows of the store are rows the database can hold
  (\<open>wf_db\<close>). The only active booking of a provider starts at 10:00 of day \<open>D\<close> and has a
  30-minute service. Then \<open>check_availability\<close> for a candidate at 10:30 of that day
  with a duration of 30 minutes returns true.
\<close>

theorem abutting_bookings:
  assumes wf: "wf_db st"
    and one: "filter (\<lambda>a. barber_id a = bid \<and> is_active_status (status a))
                  (appointments st) = [apt]"
    and at10: "scheduled_at apt = instant D 10 0 0"
    and srv: "service_of st apt = Some s" "duration_minutes s = 30"
  shows "check_availability st bid (instant D 10 30 0) 30 = Inr True"
proof -
  have "apt \<in> set (filter (\<lambda>a. barber_id a = bid \<and> is_active_status (status a))
                     (appointments st))"
    by (simp add: one)
  then have apt: "apt \<in> set (appointments st)" and bid: "barber_id apt = bid" by simp_all
  from wf apt have "int64 (barber_id apt)" and v: "valid_datetime (scheduled_at apt)"
    by (auto simp: wf_db_def list_all_iff)
  with bid have int64: "int64 bid" by simp
  from v have "valid_datetime (D * 86400000000 + 36000000000)"
    by (simp add: at10 instant_def)
  then have "- 719162 \<le> D \<and> D \<le> 2932896" by (rule day_bounds) simp_all
  then have lo: "- 719162 \<le> D" and hi: "D \<le> 2932896" by simp_all
  have v11: "valid_datetime (instant D 11 0 0)"
    using valid_in_day[OF lo hi, of 39600000000] by (simp add: instant_def add.commute)
  have sum: "instant D 10 30 0 + timedelta_minutes 30 = instant D 11 0 0"
    by (simp add: instant_def timedelta_minutes_def)
  have fin: "add_minutes (instant D 10 30 0) 30 = Inr (instant D 11 0 0)"
    by (simp add: add_minutes_def timedelta_ok_def sum v11)
  have "filter (\<lambda>a. barber_id a = bid \<and> is_active_status (status a) \<and>
                     scheduled_at a < instant D 11 0 0 \<and> scheduled_at a \<ge> instant D 10 30 0)
               (appointments st) = []"
    by (simp add: filter_refine one at10 instant_def)
  with int64 fin show ?thesis by (simp add: check_availability_rows)
qed

theorem abutting_bookings_witness:
  "check_availability abutting_shop 1 (instant 20094 10 30 0) 30 = Inr True"
  by (rule abutting_bookings
        [where apt = "mk_appointment 1 1 1 (instant 20094 10 0 0) SCHEDULED"
           and s = "\<lparr> id_service = 1, name_service = ''Corte'', duration_minutes = 30,
                      is_active_service = True \<rparr>"])
     (simp_all add: abutting_shop_def shop_def mk_appointment_def service_of_def
        is_active_status_def wf_db_def int64_def valid_datetime_def datetime_min_def
        datetime_max_def valid_time_def mk_time_def instant_def)

section \<open>Creation: \<open>create\<close>\<close>



section \<open>Slot enumeration: \<open>get_available_slots\<close>\<close>

text \<open>
  C3, as amended. For a provider id that is a 64-bit integer and that no barber row
  carries, \<open>get_available_slots\<close> returns the empty sequence and raises nothing, for
  every date, clock and duration. For an id that is no 64-bit integer the lookup of the
  barber raises OverflowError. The active flag plays no part: setting the flags of the
  barbers in any way leaves the result of every call unchanged.
\<close>

theorem unknown_provider_no_slots:
  "(int64 bid \<and> bid \<notin> id_barber ` set (barbers st) \<longrightarrow>
      get_available_slots st utcnow bid date service_duration = Inr []) \<and>
   (\<not> int64 bid \<longrightarrow>
      get_available_slots st utcnow bid date service_duration = Inl OverflowError) \<and>
   get_available_slots
      (st\<lparr>barbers := map (\<lambda>b. b\<lparr>is_active_barber := flag b\<rparr>) (barbers st)\<rparr>)
      utcnow bid date service_duration =
   get_available_slots st utcnow bid date service_duration"
proof (intro conjI impI)
  assume "int64 bid \<and> bid \<notin> id_barber ` set (barbers st)"
  then have "int64 bid" and "filter (\<lambda>b. id_barber b = bid) (barbers st) = []"
    by (auto simp: filter_empty_conv)
  then show "get_available_slots st utcnow bid date service_duration = Inr []"
    by (simp add: get_available_slots_def get_available_slots_run_def get_by_id_barber_def
        bind_int_def)
next
  assume "\<not> int64 bid"
  then show "get_available_slots st utcnow bid date service_duration = Inl OverflowError"
    by (simp add: get_available_slots_def get_available_slots_run_def get_by_id_barber_def
        bind_int_def)
next
  let ?st' = "st\<lparr>barbers := map (\<lambda>b. b\<lparr>is_active_barber := flag b\<rparr>) (barbers st)\<rparr>"
  have "get_barber_appointments ?st' bid date = get_barber_appointments st bid date"
    by (simp add: get_barber_appointments_def Let_def cong: sum.case_cong)
  then have b: "blocked_times_of ?st' bid date = blocked_times_of st bid date"
    by (intro blocked_times_of_same_day) simp_all
  have "get_available_slots_run ?st' utcnow bid date service_duration =
        get_available_slots_run st utcnow bid date service_duration"
  proof (cases "get_by_id_barber st bid")
    case (Inl e)
    then show ?thesis by (simp add: get_available_slots_run_def get_by_id_barber_flags)
  next
    case (Inr r)
    then show ?thesis
      by (cases r)
         (simp_all add: get_available_slots_run_def get_by_id_barber_flags b
            start_of_day_def end_of_day_def cong: sum.case_cong)
  qed
  then show "get_available_slots ?st' utcnow bid date service_duration =
        get_available_slots st utcnow bid date service_duration"
    by (simp add: get_available_slots_def)
qed

theorem unknown_provider_no_slots_witness:
  "get_available_slots boundary_shop (frozen_clock (instant 20094 8 0 0)) 2
     (instant 20094 0 0 0) 30 = Inr []"
proof -
  have "int64 2 \<and> 2 \<notin> id_barber ` set (barbers boundary_shop)"
    by (simp add: boundary_shop_def shop_def int64_def)
  with unknown_provider_no_slots [where bid = 2 and st = boundary_shop]
  show ?thesis by blast
qed

text \<open>
  The claim as stated fails for an inactive provider: the only barber of this store is
  inactive, and the call returns the twenty slots 09:00, ..., 18:30. It also fails for
  the id \<open>2 ^ 63\<close>, which no barber carries: the call raises OverflowError.
\<close>

theorem inactive_provider_counterexample:
  "map is_active_barber (barbers inactive_shop) = [False] \<and>
   get_available_slots inactive_shop (frozen_clock (instant 20094 8 0 0)) 1
     (instant 20094 0 0 0) 30 =
     Inr [instant 20094 9 0 0, instant 20094 9 30 0, instant 20094 10 0 0,
          instant 20094 10 30 0, instant 20094 11 0 0, instant 20094 11 30 0,
          instant 20094 12 0 0, instant 20094 12 30 0, instant 20094 13 0 0,
          instant 20094 13 30 0, instant 20094 14 0 0, instant 20094 14 30 0,
          instant 20094 15 0 0, instant 20094 15 30 0, instant 20094 16 0 0,
          instant 20094 16 30 0, instant 20094 17 0 0, instant 20094 17 30 0,
          instant 20094 18 0 0, instant 20094 18 30 0] \<and>
   get_available_slots inactive_shop (frozen_clock (instant 20094 8 0 0))
     9223372036854775808 (instant 20094 0 0 0) 30 = Inl OverflowError"
  by (simp add: inactive_shop_def eval_defs slot_loop.simps check_loop.simps
      blocked_loop.simps)

text \<open>
  C4 (boundary case), as amended. A barber works 09:00 to 19:00 and the only active
  booking of that barber starts at 09:00 of day \<open>D\<close> with a 30-minute service. Day \<open>D\<close>
  is before 9999-12-31 (day 2932896), the last day of Python's datetimes. For a
  date on day \<open>D\<close>, a 30-minute service and a clock that reads before 09:00 of that day
  throughout the call, \<open>get_available_slots\<close> returns exactly 09:30, 10:00, ..., 18:30 in
  this order; 09:00 is not among them.
\<close>

theorem boundary_case:
  assumes barber: "get_by_id_barber st bid = Inr (Some barber)"
    and hours: "work_start barber = mk_time 9 0" "work_end barber = mk_time 19 0"
    and one: "filter (\<lambda>a. barber_id a = bid \<and> is_active_status (status a)) (appointments st) = [apt]"
    and at9: "scheduled_at apt = instant D 9 0 0"
    and srv: "service_of st apt = Some s" "duration_minutes s = 30"
    and day: "instant D 0 0 0 \<le> date" "date < instant (D + 1) 0 0 0"
    and early: "\<forall>n. utcnow n < instant D 9 0 0"
    and date_ok: "valid_datetime date"
    and next_day: "D < 2932896"
  shows "get_available_slots st utcnow bid date 30 =
           Inr (map (\<lambda>k. instant D 9 0 0 + timedelta_minutes (30 * k)) [1..19]) \<and>
         instant D 9 0 0 \<notin> set (map (\<lambda>k. instant D 9 0 0 + timedelta_minutes (30 * k)) [1..19])"
proof -
  have D: "date div 86400000000 = D" using day by (rule day_of_date)
  have lo: "- 719162 \<le> D"
    using date_ok day(2) unfolding valid_datetime_def datetime_min_def instant_def distrib_right
    by linarith
  have hi: "D \<le> 2932895" using next_day by simp
  have nd: "valid_datetime (instant (D + 1) 0 0 0)"
    using lo hi unfolding valid_datetime_def datetime_min_def datetime_max_def instant_def
      distrib_right
    by linarith
  have bid: "int64 bid" using barber by (rule get_by_id_barber_int64)
  have midnight: "replace_hour_minute date 0 0 + timedelta_days 1 = instant (D + 1) 0 0 0"
    by (simp add: replace_hour_minute_def D instant_def timedelta_minutes_def
        timedelta_days_def algebra_simps)
  have onday: "scheduled_at apt \<ge> replace_hour_minute date 0 0 \<and>
               scheduled_at apt < replace_hour_minute date 0 0 + timedelta_days 1"
    by (simp add: at9 D replace_hour_minute_def instant_def timedelta_minutes_def timedelta_days_def)
  have apts: "get_barber_appointments st bid date = Inr [apt]"
    using onday nd
    by (simp add: get_barber_appointments_Inr[OF bid] midnight one)
  have blocked: "blocked_times_of st bid date = Inr {instant D 9 0 0}"
    using lo hi
    by (simp add: blocked_times_of_def apts block_appointment_def apt_duration_def srv at9
        blocked_loop.simps add_minutes_def timedelta_ok_def valid_datetime_def
        datetime_min_def datetime_max_def replace_second_instant)
       (simp add: instant_def timedelta_minutes_def)
  have s: "start_of_day barber date = instant D 9 0 0"
    by (simp add: start_of_day_def hours mk_time_def replace_hour_minute_def D instant_def timedelta_minutes_def)
  have e: "end_of_day barber date = instant D 19 0 0"
    by (simp add: end_of_day_def hours mk_time_def replace_hour_minute_def D instant_def timedelta_minutes_def)
  have "get_available_slots st utcnow bid date 30 =
          map_sum id fst (slot_loop utcnow 0 {instant D 9 0 0} 30 (instant D 19 0 0) (instant D 9 0 0))"
    by (simp add: get_available_slots_def returned_map_sum get_available_slots_run_def
        barber blocked s e)
  also have "\<dots> = map_sum id fst
      (slot_loop (frozen_clock (instant D 9 0 0 - 1)) 0 {instant D 9 0 0} 30 (instant D 19 0 0) (instant D 9 0 0))"
    by (rule slot_loop_early_clock) (use early in \<open>simp_all add: frozen_clock_def\<close>)
  also have "\<dots> = Inr (map (\<lambda>k. instant D 9 0 0 + timedelta_minutes (30 * k)) [1..19])"
    using lo hi
    by (simp add: instant_def timedelta_minutes_def frozen_clock_def slot_loop.simps
        check_loop.simps upto.simps add_minutes_def timedelta_ok_def valid_datetime_def
        datetime_min_def datetime_max_def)
  finally have "get_available_slots st utcnow bid date 30 =
      Inr (map (\<lambda>k. instant D 9 0 0 + timedelta_minutes (30 * k)) [1..19])" .
  moreover have "instant D 9 0 0 \<notin>
      set (map (\<lambda>k. instant D 9 0 0 + timedelta_minutes (30 * k)) [1..19])"
    by (auto simp: timedelta_minutes_def)
  ultimately show ?thesis by simp
qed

theorem boundary_case_witness:
  "get_available_slots boundary_shop (frozen_clock (instant 20094 8 0 0)) 1
     (instant 20094 13 45 0) 30 =
     Inr (map (\<lambda>k. instant 20094 9 0 0 + timedelta_minutes (30 * k)) [1..19]) \<and>
   instant 20094 9 0 0 \<notin>
     set (map (\<lambda>k. instant 20094 9 0 0 + timedelta_minutes (30 * k)) [1..19])"
  by (rule boundary_case
        [where barber = "\<lparr> id_barber = 1, name_barber = ''Ana'', work_start = mk_time 9 0,
                           work_end = mk_time 19 0, is_active_barber = True \<rparr>"
           and apt = "mk_appointment 1 1 1 (instant 20094 9 0 0) SCHEDULED"
           and s = "\<lparr> id_service = 1, name_service = ''Corte'', duration_minutes = 30,
                      is_active_service = True \<rparr>"])
     (simp_all add: boundary_shop_def shop_def get_by_id_barber_def bind_int_def int64_def
        mk_appointment_def service_of_def is_active_status_def instant_def frozen_clock_def
        valid_datetime_def datetime_min_def datetime_max_def)

text \<open>
  The claim as stated fails on 9999-12-31: \<open>get_barber_appointments\<close> computes the
  midnight that follows the queried day, which is no datetime, and the call raises
  OverflowError.
\<close>

theorem last_day_counterexample:
  "get_by_id_barber last_day_shop 1 =
     Inr (Some \<lparr> id_barber = 1, name_barber = ''Ana'', work_start = mk_time 9 0,
                 work_end = mk_time 19 0, is_active_barber = True \<rparr>) \<and>
   map scheduled_at (appointments last_day_shop) = [instant 2932896 9 0 0] \<and>
   valid_datetime (instant 2932896 0 0 0) \<and>
   get_available_slots last_day_shop (frozen_clock (instant 2932896 8 0 0)) 1
     (instant 2932896 0 0 0) 30 = Inl OverflowError"
  by (simp add: last_day_shop_def eval_defs)

text \<open>
  C6, as amended. The blocked set of a call is the union, over the active bookings of
  the provider that start on the queried day, of the instants \<open>bookingStart + 30k\<close>
  minutes (\<open>k = 0, 1, ...\<close>) with \<open>30k\<close> less than the duration, each truncated to the
  whole minute. The duration is \<open>duration_minutes\<close> of the linked service and 30 when the
  service cannot be resolved. For a booking that starts on a whole minute the
  truncation changes nothing, so the instants are \<open>bookingStart + 30k\<close> themselves. A
  duration that is not a multiple of 30 blocks every such point before the end. The
  computation of the set raises nothing but OverflowError, and it raises nothing when
  the bookings of the day have been fetched and each of them is representable.
\<close>

theorem blocked_times_contributions:
  "(blocked_times_of st bid date = Inr B \<longrightarrow>
      (\<exists>apts. get_barber_appointments st bid date = Inr apts \<and>
         B = (\<Union>apt\<in>set apts.
                {replace_second (scheduled_at apt + timedelta_minutes (30 * int k)) | k.
                 30 * int k < apt_duration st apt}))) \<and>
   (blocked_times_of st bid date = Inl e \<longrightarrow> e = OverflowError) \<and>
   (get_barber_appointments st bid date = Inr apts \<and> list_all (representable st) apts \<longrightarrow>
      (\<exists>B. blocked_times_of st bid date = Inr B)) \<and>
   (service_of st apt = None \<longrightarrow> apt_duration st apt = 30) \<and>
   (\<forall>s. service_of st apt = Some s \<longrightarrow> apt_duration st apt = duration_minutes s) \<and>
   (replace_second (scheduled_at apt) = scheduled_at apt \<longrightarrow>
      (\<forall>k. replace_second (scheduled_at apt + timedelta_minutes (30 * int k)) =
           scheduled_at apt + timedelta_minutes (30 * int k)))"
proof -
  have "\<exists>apts. get_barber_appointments st bid date = Inr apts \<and>
         B = (\<Union>apt\<in>set apts.
                {replace_second (scheduled_at apt + timedelta_minutes (30 * int k)) | k.
                 30 * int k < apt_duration st apt})"
    if run: "blocked_times_of st bid date = Inr B"
  proof -
    from run obtain xs where xs: "get_barber_appointments st bid date = Inr xs"
      and all: "block_all st xs {} = Inr B"
      by (auto simp: blocked_times_of_def split: sum.splits)
    from block_all_Inr[OF all] xs show ?thesis by simp
  qed
  moreover have "blocked_times_of st bid date = Inl e \<longrightarrow> e = OverflowError"
    by (simp add: blocked_times_of_Inl)
  moreover have "\<exists>B. blocked_times_of st bid date = Inr B"
    if "get_barber_appointments st bid date = Inr apts \<and> list_all (representable st) apts"
    using that block_all_succeeds[of st apts "{}"] by (simp add: blocked_times_of_def)
  moreover have "service_of st apt = None \<longrightarrow> apt_duration st apt = 30"
    by (simp add: apt_duration_def)
  moreover have "\<forall>s. service_of st apt = Some s \<longrightarrow> apt_duration st apt = duration_minutes s"
    by (simp add: apt_duration_def)
  moreover have "replace_second (scheduled_at apt) = scheduled_at apt \<longrightarrow>
      (\<forall>k. replace_second (scheduled_at apt + timedelta_minutes (30 * int k)) =
           scheduled_at apt + timedelta_minutes (30 * int k))"
    by (simp add: replace_second_step)
  ultimately show ?thesis by blast
qed

theorem blocked_times_contributions_witness:
  "blocked_times_of long_booking_shop 1 (instant 20094 0 0 0) =
     Inr {instant 20094 10 0 0, instant 20094 10 30 0} \<and>
   apt_duration long_booking_shop (mk_appointment 1 1 2 (instant 20094 10 0 0) SCHEDULED) = 60 \<and>
   replace_second (instant 20094 10 0 0 + timedelta_minutes (30 * int 1)) =
     instant 20094 10 0 0 + timedelta_minutes (30 * int 1)"
proof -
  let ?apt = "mk_appointment 1 1 2 (instant 20094 10 0 0) SCHEDULED"
  let ?s = "\<lparr> id_service = 2, name_service = ''Corte e barba'', duration_minutes = 60,
              is_active_service = True \<rparr>"
  note c = blocked_times_contributions
    [where st = long_booking_shop and bid = 1 and date = "instant 20094 0 0 0"
       and apt = ?apt and apts = "[?apt]"]
  have srv: "service_of long_booking_shop ?apt = Some ?s"
    by (simp add: long_booking_shop_def shop_def mk_appointment_def service_of_def)
  have minute: "replace_second (scheduled_at ?apt) = scheduled_at ?apt"
    by (simp add: mk_appointment_def replace_second_instant)
  have apts: "get_barber_appointments long_booking_shop 1 (instant 20094 0 0 0) = Inr [?apt]"
    by (simp add: long_booking_shop_def eval_defs)
  have "list_all (representable long_booking_shop) [?apt]"
    by (simp add: representable_def long_booking_shop_def eval_defs)
  with c apts obtain B where B: "blocked_times_of long_booking_shop 1 (instant 20094 0 0 0) = Inr B"
    by blast
  have "blocked_times_of long_booking_shop 1 (instant 20094 0 0 0) =
     Inr {instant 20094 10 0 0, instant 20094 10 30 0}"
    by (simp add: long_booking_shop_def eval_defs blocked_loop.simps insert_commute)
  moreover from c srv have "apt_duration long_booking_shop ?apt = duration_minutes ?s"
    by blast
  moreover from c minute
  have "replace_second (scheduled_at ?apt + timedelta_minutes (30 * int 1)) =
          scheduled_at ?apt + timedelta_minutes (30 * int 1)"
    by blast
  ultimately show ?thesis by (simp add: mk_appointment_def)
qed

text \<open>
  The claim as stated fails for a booking that does not start on a whole minute: the
  booking of this store starts at 09:00:30, and the blocked set is \<open>{09:00:00}\<close>, which
  does not contain the start of the booking.
\<close>

theorem blocked_times_truncated_counterexample:
  "scheduled_at (mk_appointment 1 1 1 (instant 20094 9 0 30) SCHEDULED) = instant 20094 9 0 30 \<and>
   blocked_times_of offgrid_shop 1 (instant 20094 0 0 0) = Inr {instant 20094 9 0 0} \<and>
   instant 20094 9 0 30 \<notin> {instant 20094 9 0 0}"
  by (simp add: offgrid_shop_def eval_defs blocked_loop.simps)



text \<open>
  C8, as amended. A call reads the clock once for each candidate that passes the test
  against the blocked set, in the order of the candidates, and not once per call. The
  passing candidates are the instants working-start plus \<open>30k\<close> minutes that end, with the
  service duration added, no later than the working end and that \<open>check_loop\<close> finds
  free. The number of readings of a call that returns is the number of passing
  candidates, and the call returns the passing candidate number \<open>i\<close> (counted from 0) iff
  it is strictly after reading number \<open>i\<close>. So every returned start time is strictly
  after the reading taken for it; when none of the readings of the call is earlier
  than the first one, every returned start time is strictly after the first reading,
  and with the first reading at 14:00 no returned slot is at or before 14:00.
\<close>

theorem slots_after_clock_readings:
  assumes "get_available_slots st utcnow bid date service_duration = Inr slots"
  shows "\<exists>cands.
     clock_readings st utcnow bid date service_duration = Inr (length cands) \<and>
     slots = map fst (filter (\<lambda>(t, i). utcnow i < t) (zip cands [0..<length cands])) \<and>
     sorted_wrt (<) cands \<and>
     (\<forall>t. t \<in> set cands \<longleftrightarrow>
        (\<exists>barber B k.
           get_by_id_barber st bid = Inr (Some barber) \<and>
           blocked_times_of st bid date = Inr B \<and>
           t = start_of_day barber date + timedelta_minutes (30 * int k) \<and>
           t + timedelta_minutes service_duration \<le> end_of_day barber date \<and>
           check_loop B t service_duration t = Inr True)) \<and>
     (\<forall>slot\<in>set slots. \<exists>i<length cands. slot = cands ! i \<and> utcnow i < slot) \<and>
     ((\<forall>i<length cands. utcnow 0 \<le> utcnow i) \<longrightarrow> (\<forall>slot\<in>set slots. utcnow 0 < slot))"
proof -
  from assms obtain n where
    run: "get_available_slots_run st utcnow bid date service_duration = Inr (slots, n)"
    by (auto simp: get_available_slots_Inr)
  then have readings: "clock_readings st utcnow bid date service_duration = Inr n"
    by (simp add: clock_readings_def)
  have main: "\<exists>cands. n = length cands \<and>
     slots = map fst (filter (\<lambda>(t, i). utcnow i < t) (zip cands [0..<length cands])) \<and>
     sorted_wrt (<) cands \<and>
     (\<forall>t. t \<in> set cands \<longleftrightarrow>
        (\<exists>barber B k.
           get_by_id_barber st bid = Inr (Some barber) \<and>
           blocked_times_of st bid date = Inr B \<and>
           t = start_of_day barber date + timedelta_minutes (30 * int k) \<and>
           t + timedelta_minutes service_duration \<le> end_of_day barber date \<and>
           check_loop B t service_duration t = Inr True))"
    using get_available_slots_run_Inr[OF run]
  proof
    assume none: "get_by_id_barber st bid = Inr None \<and> slots = [] \<and> n = 0"
    then have "n = length ([] :: datetime list) \<and>
       slots = map fst (filter (\<lambda>(t, i). utcnow i < t)
                 (zip ([] :: datetime list) [0..<length ([] :: datetime list)])) \<and>
       sorted_wrt (<) ([] :: datetime list) \<and>
       (\<forall>t. t \<in> set ([] :: datetime list) \<longleftrightarrow>
        (\<exists>barber B k.
           get_by_id_barber st bid = Inr (Some barber) \<and>
           blocked_times_of st bid date = Inr B \<and>
           t = start_of_day barber date + timedelta_minutes (30 * int k) \<and>
           t + timedelta_minutes service_duration \<le> end_of_day barber date \<and>
           check_loop B t service_duration t = Inr True))"
      by simp
    then show ?thesis by (rule exI)
  next
    assume "\<exists>barber B. get_by_id_barber st bid = Inr (Some barber) \<and>
            blocked_times_of st bid date = Inr B \<and>
            slot_loop utcnow 0 B service_duration (end_of_day barber date)
              (start_of_day barber date) = Inr (slots, n)"
    then obtain barber B where barber: "get_by_id_barber st bid = Inr (Some barber)"
      and blocked: "blocked_times_of st bid date = Inr B"
      and loop: "slot_loop utcnow 0 B service_duration (end_of_day barber date)
              (start_of_day barber date) = Inr (slots, n)"
      by blast
    let ?cs = "candidates B service_duration (end_of_day barber date) (start_of_day barber date)"
    from slot_loop_candidates[OF loop]
    have n: "n = length ?cs"
      and slots: "slots = map fst (filter (\<lambda>(t, i). utcnow i < t) (zip ?cs [0..<length ?cs]))"
      by simp_all
    have "t \<in> set ?cs \<longleftrightarrow>
        (\<exists>barber B k.
           get_by_id_barber st bid = Inr (Some barber) \<and>
           blocked_times_of st bid date = Inr B \<and>
           t = start_of_day barber date + timedelta_minutes (30 * int k) \<and>
           t + timedelta_minutes service_duration \<le> end_of_day barber date \<and>
           check_loop B t service_duration t = Inr True)" for t
      using barber blocked by (auto simp: candidates_set grid_point_def)
    with n slots candidates_sorted[of B service_duration "end_of_day barber date"
        "start_of_day barber date"]
    show ?thesis by blast
  qed
  then obtain cands where len: "n = length cands"
    and slots: "slots = map fst (filter (\<lambda>(t, i). utcnow i < t)
                  (zip cands [0..<length cands]))"
    and sorted: "sorted_wrt (<) cands"
    and set: "\<forall>t. t \<in> set cands \<longleftrightarrow>
        (\<exists>barber B k.
           get_by_id_barber st bid = Inr (Some barber) \<and>
           blocked_times_of st bid date = Inr B \<and>
           t = start_of_day barber date + timedelta_minutes (30 * int k) \<and>
           t + timedelta_minutes service_duration \<le> end_of_day barber date \<and>
           check_loop B t service_duration t = Inr True)"
    by blast
  have index: "\<forall>slot\<in>set slots. \<exists>i<length cands. slot = cands ! i \<and> utcnow i < slot"
    unfolding slots using zip_filter_index by blast
  have first: "\<forall>slot\<in>set slots. utcnow 0 < slot" if "\<forall>i<length cands. utcnow 0 \<le> utcnow i"
  proof
    fix slot assume "slot \<in> set slots"
    with index obtain i where "i < length cands" "utcnow i < slot" by blast
    with that show "utcnow 0 < slot" by (meson le_less_trans)
  qed
  from readings len slots sorted set index first show ?thesis by blast
qed

text \<open>
  With the clock at 14:00 throughout the call, the store with one booking at 09:00 has
  nineteen passing candidates (09:30, ..., 18:30); the call reads the clock nineteen times
  and returns the nine of them after 14:00.
\<close>

theorem slots_after_clock_readings_witness:
  "get_available_slots boundary_shop (frozen_clock (instant 20094 14 0 0)) 1
     (instant 20094 0 0 0) 30 =
   Inr [instant 20094 14 30 0, instant 20094 15 0 0, instant 20094 15 30 0,
        instant 20094 16 0 0, instant 20094 16 30 0, instant 20094 17 0 0,
        instant 20094 17 30 0, instant 20094 18 0 0, instant 20094 18 30 0] \<and>
   clock_readings boundary_shop (frozen_clock (instant 20094 14 0 0)) 1
     (instant 20094 0 0 0) 30 = Inr 19 \<and>
   (\<exists>cands.
      clock_readings boundary_shop (frozen_clock (instant 20094 14 0 0)) 1
        (instant 20094 0 0 0) 30 = Inr (length cands) \<and>
      [instant 20094 14 30 0, instant 20094 15 0 0, instant 20094 15 30 0,
        instant 20094 16 0 0, instant 20094 16 30 0, instant 20094 17 0 0,
        instant 20094 17 30 0, instant 20094 18 0 0, instant 20094 18 30 0] =
      map fst (filter (\<lambda>(t, i). frozen_clock (instant 20094 14 0 0) i < t)
                 (zip cands [0..<length cands])) \<and>
      sorted_wrt (<) cands)"
proof -
  have slots: "get_available_slots boundary_shop (frozen_clock (instant 20094 14 0 0)) 1
     (instant 20094 0 0 0) 30 =
   Inr [instant 20094 14 30 0, instant 20094 15 0 0, instant 20094 15 30 0,
        instant 20094 16 0 0, instant 20094 16 30 0, instant 20094 17 0 0,
        instant 20094 17 30 0, instant 20094 18 0 0, instant 20094 18 30 0]"
    by (simp add: get_available_slots_def boundary_shop_afternoon)
  have readings: "clock_readings boundary_shop (frozen_clock (instant 20094 14 0 0)) 1
     (instant 20094 0 0 0) 30 = Inr 19"
    by (simp add: clock_readings_def boundary_shop_afternoon)
  have "\<exists>cands.
      clock_readings boundary_shop (frozen_clock (instant 20094 14 0 0)) 1
        (instant 20094 0 0 0) 30 = Inr (length cands) \<and>
      [instant 20094 14 30 0, instant 20094 15 0 0, instant 20094 15 30 0,
        instant 20094 16 0 0, instant 20094 16 30 0, instant 20094 17 0 0,
        instant 20094 17 30 0, instant 20094 18 0 0, instant 20094 18 30 0] =
      map fst (filter (\<lambda>(t, i). frozen_clock (instant 20094 14 0 0) i < t)
                 (zip cands [0..<length cands])) \<and>
      sorted_wrt (<) cands"
    using slots_after_clock_readings [OF slots]
    by (elim exE conjE) (rule exI, intro conjI, assumption+)
  with slots readings show ?thesis by (intro conjI)
qed

text \<open>
  The claim as stated fails: the two clocks below give the same first reading, one
  microsecond before 09:30, and the results differ. With the frozen clock 09:30 is
  returned; with the ticking clock the reading taken for the candidate 09:30 is one
  microsecond after 09:30, and the first returned slot is 10:00. The call reads the
  clock twenty times, once for each candidate of the day.
\<close>

theorem clock_resampled_counterexample:
  "ticking_clock (instant 20094 9 30 0 - 1) 0 = frozen_clock (instant 20094 9 30 0 - 1) 0 \<and>
   get_available_slots open_shop (frozen_clock (instant 20094 9 30 0 - 1)) 1
     (instant 20094 0 0 0) 30 =
   Inr [instant 20094 9 30 0, instant 20094 10 0 0, instant 20094 10 30 0,
        instant 20094 11 0 0, instant 20094 11 30 0, instant 20094 12 0 0,
        instant 20094 12 30 0, instant 20094 13 0 0, instant 20094 13 30 0,
        instant 20094 14 0 0, instant 20094 14 30 0, instant 20094 15 0 0,
        instant 20094 15 30 0, instant 20094 16 0 0, instant 20094 16 30 0,
        instant 20094 17 0 0, instant 20094 17 30 0, instant 20094 18 0 0,
        instant 20094 18 30 0] \<and>
   get_available_slots open_shop (ticking_clock (instant 20094 9 30 0 - 1)) 1
     (instant 20094 0 0 0) 30 =
   Inr [instant 20094 10 0 0, instant 20094 10 30 0, instant 20094 11 0 0,
        instant 20094 11 30 0, instant 20094 12 0 0, instant 20094 12 30 0,
        instant 20094 13 0 0, instant 20094 13 30 0, instant 20094 14 0 0,
        instant 20094 14 30 0, instant 20094 15 0 0, instant 20094 15 30 0,
        instant 20094 16 0 0, instant 20094 16 30 0, instant 20094 17 0 0,
        instant 20094 17 30 0, instant 20094 18 0 0, instant 20094 18 30 0] \<and>
   clock_readings open_shop (ticking_clock (instant 20094 9 30 0 - 1)) 1
     (instant 20094 0 0 0) 30 = Inr 20"
  by (simp add: open_shop_def ticking_clock_def eval_defs slot_loop.simps check_loop.simps
      blocked_loop.simps)

text \<open>
  C9, as amended. Let the barber exist. If the working-end time is at most the
  working-start time and the service duration is positive, or if the service duration
  exceeds the length of the working window (the working-end instant minus the
  working-start instant of the day), \<open>get_available_slots\<close> returns no slot. It returns
  the empty sequence when the blocked set of the day is computed without error and the
  working-start instant plus the service duration is a datetime; otherwise it raises
  OverflowError.
\<close>

theorem empty_window_no_slots:
  assumes barber: "get_by_id_barber st bid = Inr (Some barber)"
    and valid: "valid_time (work_end barber)"
    and window: "(time_le (work_end barber) (work_start barber) \<and> 0 < service_duration) \<or>
                 end_of_day barber date - start_of_day barber date
                   < timedelta_minutes service_duration"
  shows "get_available_slots st utcnow bid date service_duration =
           (if (\<exists>B. blocked_times_of st bid date = Inr B) \<and>
               (\<exists>fin. add_minutes (start_of_day barber date) service_duration = Inr fin)
            then Inr [] else Inl OverflowError)"
proof -
  have late: "\<not> start_of_day barber date + timedelta_minutes service_duration
      \<le> end_of_day barber date"
    using window
  proof
    assume a: "time_le (work_end barber) (work_start barber) \<and> 0 < service_duration"
    then have "time_le (work_end barber) (work_start barber)" ..
    from time_le_minutes[OF this valid]
    have "end_of_day barber date \<le> start_of_day barber date"
      by (simp add: end_of_day_def start_of_day_def replace_hour_minute_def timedelta_minutes_def)
    moreover have "0 < timedelta_minutes service_duration"
      using a by (simp add: timedelta_minutes_def)
    ultimately show ?thesis by simp
  next
    assume "end_of_day barber date - start_of_day barber date < timedelta_minutes service_duration"
    then show ?thesis by simp
  qed
  show ?thesis
  proof (cases "blocked_times_of st bid date")
    case (Inl e)
    then have "e = OverflowError" by (rule blocked_times_of_Inl)
    with Inl show ?thesis
      by (simp add: get_available_slots_def get_available_slots_run_def barber)
  next
    case B: (Inr B)
    show ?thesis
    proof (cases "add_minutes (start_of_day barber date) service_duration")
      case (Inl e)
      then have "e = OverflowError" by (rule add_minutes_Inl)
      with Inl B show ?thesis
        by (simp add: get_available_slots_def get_available_slots_run_def barber
            slot_loop.simps[of _ _ _ _ _ "start_of_day barber date"])
    next
      case (Inr fin)
      then have "fin = start_of_day barber date + timedelta_minutes service_duration"
        by (simp add: add_minutes_Inr)
      with late have "\<not> fin \<le> end_of_day barber date" by simp
      with Inr B show ?thesis
        by (simp add: get_available_slots_def get_available_slots_run_def barber
            slot_loop.simps[of _ _ _ _ _ "start_of_day barber date"])
    qed
  qed
qed

theorem empty_window_no_slots_witness:
  "time_le (mk_time 9 0) (mk_time 19 0) \<and>
   get_available_slots reversed_shop (frozen_clock (instant 20094 8 0 0)) 1
     (instant 20094 0 0 0) 30 = Inr []"
proof -
  let ?barber = "\<lparr> id_barber = 1, name_barber = ''Ana'', work_start = mk_time 19 0,
                             work_end = mk_time 9 0, is_active_barber = True \<rparr>"
  have blocked: "blocked_times_of reversed_shop 1 (instant 20094 0 0 0) = Inr {}"
    by (simp add: reversed_shop_def eval_defs)
  have fin: "add_minutes (start_of_day ?barber (instant 20094 0 0 0)) 30 =
      Inr (instant 20094 19 30 0)"
    by (simp add: eval_defs)
  have "get_available_slots reversed_shop (frozen_clock (instant 20094 8 0 0)) 1
     (instant 20094 0 0 0) 30 =
     (if (\<exists>B. blocked_times_of reversed_shop 1 (instant 20094 0 0 0) = Inr B) \<and>
         (\<exists>fin. add_minutes (start_of_day ?barber (instant 20094 0 0 0)) 30 = Inr fin)
      then Inr [] else Inl OverflowError)"
    by (rule empty_window_no_slots)
       (simp_all add: reversed_shop_def shop_def get_by_id_barber_def bind_int_def int64_def
          mk_time_def valid_time_def time_le_def)
  moreover have "time_le (mk_time 9 0) (mk_time 19 0)"
    by (simp add: mk_time_def time_le_def)
  ultimately show ?thesis by (simp add: blocked fin)
qed

text \<open>
  The claim as stated fails for a duration of 0: with working hours 09:00 to 09:00 the
  call returns the slot 09:00. It also fails for a duration that no \<open>timedelta\<close> holds:
  with 10000000000 minutes, far longer than the working window, the call raises
  OverflowError.
\<close>

theorem zero_duration_counterexample:
  "time_le (mk_time 9 0) (mk_time 9 0) \<and>
   get_available_slots zero_window_shop (frozen_clock (instant 20094 8 0 0)) 1
     (instant 20094 0 0 0) 0 = Inr [instant 20094 9 0 0] \<and>
   get_available_slots open_shop (frozen_clock (instant 20094 8 0 0)) 1
     (instant 20094 0 0 0) 10000000000 = Inl OverflowError"
  by (simp add: zero_window_shop_def open_shop_def time_le_def eval_defs slot_loop.simps
      check_loop.simps blocked_loop.simps)

text \<open>
  C10. The blocked set and the result of \<open>get_available_slots\<close> depend on the
  appointments only through the active bookings of the provider that start on the
  queried day, from midnight to midnight: restricting the table to them changes neither.
  In particular a booking that starts before the midnight of the queried day can be
  removed from the table without changing the blocked set or the result, whatever its
  status and duration, also when it ends after that midnight.
\<close>

theorem off_day_bookings_ignored:
  "blocked_times_of st bid date =
     blocked_times_of
       (st\<lparr>appointments :=
            filter (\<lambda>a. barber_id a = bid \<and>
                         scheduled_at a \<ge> replace_hour_minute date 0 0 \<and>
                         scheduled_at a < replace_hour_minute date 0 0 + timedelta_days 1 \<and>
                         is_active_status (status a))
                   (appointments st)\<rparr>) bid date \<and>
   get_available_slots st utcnow bid date d =
     get_available_slots
       (st\<lparr>appointments :=
            filter (\<lambda>a. barber_id a = bid \<and>
                         scheduled_at a \<ge> replace_hour_minute date 0 0 \<and>
                         scheduled_at a < replace_hour_minute date 0 0 + timedelta_days 1 \<and>
                         is_active_status (status a))
                   (appointments st)\<rparr>) utcnow bid date d \<and>
   (scheduled_at apt < replace_hour_minute date 0 0 \<longrightarrow>
      blocked_times_of (st\<lparr>appointments := xs @ apt # ys\<rparr>) bid date =
      blocked_times_of (st\<lparr>appointments := xs @ ys\<rparr>) bid date \<and>
      get_available_slots (st\<lparr>appointments := xs @ apt # ys\<rparr>) utcnow bid date d =
      get_available_slots (st\<lparr>appointments := xs @ ys\<rparr>) utcnow bid date d)"
proof -
  let ?day = "\<lambda>a. barber_id a = bid \<and>
                   scheduled_at a \<ge> replace_hour_minute date 0 0 \<and>
                   scheduled_at a < replace_hour_minute date 0 0 + timedelta_days 1 \<and>
                   is_active_status (status a)"
  let ?st' = "st\<lparr>appointments := filter ?day (appointments st)\<rparr>"
  have same: "get_barber_appointments ?st' bid date = get_barber_appointments st bid date"
  proof (cases "add_days (replace_hour_minute date 0 0) 1")
    case (Inl e)
    then show ?thesis by (simp add: get_barber_appointments_def Let_def)
  next
    case (Inr fin)
    then have fin: "fin = replace_hour_minute date 0 0 + timedelta_days 1"
      by (auto simp: add_days_def split: if_splits)
    show ?thesis
    proof (cases "int64 bid")
      case False
      with Inr show ?thesis by (simp add: get_barber_appointments_def Let_def bind_int_def)
    next
      case True
      with Inr show ?thesis
        by (simp add: get_barber_appointments_def Let_def bind_int_def fin cong: conj_cong)
    qed
  qed
  have "blocked_times_of ?st' bid date = blocked_times_of st bid date"
    using _ same by (rule blocked_times_of_same_day) simp
  moreover have "get_available_slots ?st' utcnow bid date d =
      get_available_slots st utcnow bid date d"
    using _ _ same by (rule get_available_slots_cong) simp_all
  moreover have "blocked_times_of (st\<lparr>appointments := xs @ apt # ys\<rparr>) bid date =
      blocked_times_of (st\<lparr>appointments := xs @ ys\<rparr>) bid date \<and>
      get_available_slots (st\<lparr>appointments := xs @ apt # ys\<rparr>) utcnow bid date d =
      get_available_slots (st\<lparr>appointments := xs @ ys\<rparr>) utcnow bid date d"
    if before: "scheduled_at apt < replace_hour_minute date 0 0"
  proof -
    have drop: "get_barber_appointments (st\<lparr>appointments := xs @ apt # ys\<rparr>) bid date =
        get_barber_appointments (st\<lparr>appointments := xs @ ys\<rparr>) bid date"
      using before
      by (simp add: get_barber_appointments_def Let_def cong: sum.case_cong)
    have "blocked_times_of (st\<lparr>appointments := xs @ apt # ys\<rparr>) bid date =
        blocked_times_of (st\<lparr>appointments := xs @ ys\<rparr>) bid date"
      using _ drop by (rule blocked_times_of_same_day) simp
    moreover have "get_available_slots (st\<lparr>appointments := xs @ apt # ys\<rparr>) utcnow bid date d =
        get_available_slots (st\<lparr>appointments := xs @ ys\<rparr>) utcnow bid date d"
      using _ _ drop by (rule get_available_slots_cong) simp_all
    ultimately show ?thesis ..
  qed
  ultimately show ?thesis by simp
qed

text \<open>
  A 60-minute booking at 23:30 of the day before ends at 00:30 of the queried day; the
  blocked set of the queried day is empty and 00:00 is offered.
\<close>

theorem off_day_bookings_ignored_witness:
  "scheduled_at (mk_appointment 1 1 2 (instant 20093 23 30 0) SCHEDULED) + timedelta_minutes 60
     > instant 20094 0 0 0 \<and>
   blocked_times_of night_shop 1 (instant 20094 0 0 0) = Inr {} \<and>
   get_available_slots night_shop (frozen_clock (instant 20093 22 0 0)) 1
     (instant 20094 0 0 0) 30 =
   get_available_slots (night_shop\<lparr>appointments := []\<rparr>) (frozen_clock (instant 20093 22 0 0)) 1
     (instant 20094 0 0 0) 30 \<and>
   get_available_slots night_shop (frozen_clock (instant 20093 22 0 0)) 1
     (instant 20094 0 0 0) 30 =
   Inr [instant 20094 0 0 0, instant 20094 0 30 0, instant 20094 1 0 0, instant 20094 1 30 0]"
proof -
  let ?apt = "mk_appointment 1 1 2 (instant 20093 23 30 0) SCHEDULED"
  have before: "scheduled_at ?apt < replace_hour_minute (instant 20094 0 0 0) 0 0"
    by (simp add: mk_appointment_def instant_def replace_hour_minute_def timedelta_minutes_def)
  have same: "night_shop\<lparr>appointments := [?apt]\<rparr> = night_shop"
    by (simp add: night_shop_def shop_def)
  from before off_day_bookings_ignored
    [of night_shop 1 "instant 20094 0 0 0" "frozen_clock (instant 20093 22 0 0)" 30 ?apt "[]" "[]"]
  have "blocked_times_of (night_shop\<lparr>appointments := [] @ ?apt # []\<rparr>) 1 (instant 20094 0 0 0) =
        blocked_times_of (night_shop\<lparr>appointments := [] @ []\<rparr>) 1 (instant 20094 0 0 0)"
    and "get_available_slots (night_shop\<lparr>appointments := [] @ ?apt # []\<rparr>)
          (frozen_clock (instant 20093 22 0 0)) 1 (instant 20094 0 0 0) 30 =
        get_available_slots (night_shop\<lparr>appointments := [] @ []\<rparr>)
          (frozen_clock (instant 20093 22 0 0)) 1 (instant 20094 0 0 0) 30"
    by blast+
  then have "blocked_times_of night_shop 1 (instant 20094 0 0 0) =
        blocked_times_of (night_shop\<lparr>appointments := []\<rparr>) 1 (instant 20094 0 0 0)"
    and "get_available_slots night_shop (frozen_clock (instant 20093 22 0 0)) 1
          (instant 20094 0 0 0) 30 =
        get_available_slots (night_shop\<lparr>appointments := []\<rparr>)
          (frozen_clock (instant 20093 22 0 0)) 1 (instant 20094 0 0 0) 30"
    by (simp_all only: append_Nil same)
  moreover have "blocked_times_of (night_shop\<lparr>appointments := []\<rparr>) 1 (instant 20094 0 0 0) = Inr {}"
    by (simp add: night_shop_def eval_defs)
  moreover have "get_available_slots night_shop (frozen_clock (instant 20093 22 0 0)) 1
     (instant 20094 0 0 0) 30 =
   Inr [instant 20094 0 0 0, instant 20094 0 30 0, instant 20094 1 0 0, instant 20094 1 30 0]"
    by (simp add: night_shop_def eval_defs slot_loop.simps check_loop.simps blocked_loop.simps)
  moreover have "scheduled_at ?apt + timedelta_minutes 60 > instant 20094 0 0 0"
    by (simp add: mk_appointment_def instant_def timedelta_minutes_def)
  ultimately show ?thesis by simp
qed

end
